theory Spec2Isabelle
  imports Complex_Main "HOL-Library.Word" "HOL-Library.Sublist"
begin

section \<open>JavaScript values and objects\<close>

text \<open>
  The arbiter is JavaScript. A value of a JSON request body is one of the JavaScript
  values below; numbers are reals with a separate \<open>NaN\<close>. An object is a finite map from
  property names to values; reading an absent property gives \<open>undefined\<close>.
\<close>

datatype jsval =
    JUndefined
  | JNull
  | JBool bool
  | JNum real
  | JNaN
  | JStr string
  | JArr "jsval list"
  | JObj "(string \<times> jsval) list"

type_synonym jsobj = "string \<rightharpoonup> jsval"

fun truthy :: "jsval \<Rightarrow> bool" where
  "truthy JUndefined = False"
| "truthy JNull = False"
| "truthy (JBool b) = b"
| "truthy (JNum r) = (r \<noteq> 0)"
| "truthy JNaN = False"
| "truthy (JStr s) = (s \<noteq> [])"
| "truthy (JArr xs) = True"
| "truthy (JObj kvs) = True"

definition getProp :: "jsobj \<Rightarrow> string \<Rightarrow> jsval" where
  "getProp obj k = (case obj k of None \<Rightarrow> JUndefined | Some v \<Rightarrow> v)"

text \<open>\<open>a || b\<close>\<close>

definition js_or :: "jsval \<Rightarrow> jsval \<Rightarrow> jsval" where
  "js_or a b = (if truthy a then a else b)"

text \<open>
  What the handlers read from their surroundings: \<open>Date.now()\<close>, \<open>new Date().toISOString()\<close>,
  the built-in \<open>parseFloat\<close> (floating point, taken as given) and the conversion of a
  non-string value to a property key. One request reads one clock value.
\<close>

record jsenv =
  nowMs :: int
  isoNow :: string
  parseFloat :: "jsval \<Rightarrow> jsval"
  numKey :: "jsval \<Rightarrow> string"

definition propertyKey :: "jsenv \<Rightarrow> jsval \<Rightarrow> string" where
  "propertyKey env v =
     (case v of
        JStr s \<Rightarrow> s
      | JUndefined \<Rightarrow> ''undefined''
      | JNull \<Rightarrow> ''null''
      | JBool b \<Rightarrow> (if b then ''true'' else ''false'')
      | _ \<Rightarrow> numKey env v)"

text \<open>
  The three tables of a context are object literals, so a lookup by name finds, besides the
  table's own entries, what every object inherits from \<open>Object.prototype\<close>. The maps
  below hold the own entries. These are the inherited names; each of them looks up a
  function or, for \<open>__proto__\<close>, the prototype object: a truthy value that is not an array.
\<close>

definition inheritedName :: "string \<Rightarrow> bool" where
  "inheritedName k \<longleftrightarrow>
     k \<in> set [''constructor'', ''__proto__'', ''hasOwnProperty'', ''isPrototypeOf'',
              ''propertyIsEnumerable'', ''toLocaleString'', ''toString'', ''valueOf'',
              ''__defineGetter__'', ''__defineSetter__'', ''__lookupGetter__'',
              ''__lookupSetter__'']"

section \<open>The coordination store (RealSystem.js, SimSystem.js)\<close>

definition POLE_ORDER :: "string list" where
  "POLE_ORDER = [''Pole1'', ''Pole2'', ''Pole3'', ''Pole4'']"

definition RECOVERY_STABLE_MS :: int where
  "RECOVERY_STABLE_MS = 3000"

definition STALE_TIMEOUT_MS :: int where
  "STALE_TIMEOUT_MS = 15000"

datatype status = WAITING | SIM_IDLE | NORMAL | GRID_DOWN | FAULT

record systemState =
  status :: status
  faultLocation :: "string option"
  faultType :: "string option"
  lastFaultTime :: "string option"
  lastRecoveryTime :: "string option"
  recoveryStartTime :: "int option"
  isolatedSegments :: "string list"

text \<open>
  A queued command. The source also gives it an id made of the clock value and a random
  suffix; the clock value is kept, the random suffix is not represented.
\<close>

record command =
  action :: jsval
  reason :: jsval
  idTime :: int
  timestamp :: string
  cmdStatus :: string

text \<open>The events a context broadcasts (its \<open>events\<close> table gives the wire names).\<close>

datatype event =
    EvGridDown
  | EvNormal
  | EvFault string
  | EvClear string
  | EvUpdate
  | EvPoleUpdate string
  | EvCommand string

datatype ctxType = RealCtx | SimCtx

text \<open>
  One context. \<open>null\<close> and an absent key are both \<open>None\<close>. \<open>io\<close> is \<open>None\<close> until
  a Socket.IO instance is set; then it holds what has been emitted so far. Writes to the
  persistent mirror (\<open>saveToFirebase\<close>) are fire-and-forget and never read back; they are
  not represented.
\<close>

record ctx =
  ctype :: ctxType
  poleStates :: "string \<rightharpoonup> jsobj"
  pendingCommands :: "string \<rightharpoonup> command list"
  lastUpdateTime :: "string \<rightharpoonup> int"
  systemState :: systemState
  io :: "event list option"
  stalenessTimer :: bool

definition emit :: "event \<Rightarrow> ctx \<Rightarrow> ctx" where
  "emit e c = c\<lparr>io := map_option (\<lambda>l. l @ [e]) (io c)\<rparr>"

definition baseline :: "ctxType \<Rightarrow> systemState" where
  "baseline t =
     \<lparr>status = (case t of RealCtx \<Rightarrow> WAITING | SimCtx \<Rightarrow> SIM_IDLE),
      faultLocation = None, faultType = None, lastFaultTime = None,
      lastRecoveryTime = None, recoveryStartTime = None, isolatedSegments = []\<rparr>"

definition emptyQueues :: "string \<rightharpoonup> command list" where
  "emptyQueues = [''Pole1'' \<mapsto> [], ''Pole2'' \<mapsto> [], ''Pole3'' \<mapsto> [], ''Pole4'' \<mapsto> []]"

definition zeroTimes :: "string \<rightharpoonup> int" where
  "zeroTimes = [''Pole1'' \<mapsto> 0, ''Pole2'' \<mapsto> 0, ''Pole3'' \<mapsto> 0, ''Pole4'' \<mapsto> 0]"

text \<open>The constructor of \<open>RealSystem\<close> / \<open>SimSystem\<close>.\<close>

definition newSystem :: "ctxType \<Rightarrow> ctx" where
  "newSystem t =
     \<lparr>ctype = t, poleStates = Map.empty, pendingCommands = emptyQueues,
      lastUpdateTime = zeroTimes, systemState = baseline t, io = None,
      stalenessTimer = False\<rparr>"

text \<open>
  \<open>queueCommand\<close>, at a pole id whose lookup in \<open>pendingCommands\<close> finds an array or
  nothing: the engine calls it with names of \<open>POLE_ORDER\<close> only. At a name the table only
  inherits, the lookup finds the inherited value, the guard \<open>if (!this.pendingCommands[poleId])\<close>
  is skipped and \<open>.push\<close> raises a TypeError before anything is written; \<open>pushThrows\<close>
  is that case, and \<open>POST /command\<close> below tests for it before it queues.
\<close>

definition pushThrows :: "ctx \<Rightarrow> string \<Rightarrow> bool" where
  "pushThrows c poleId \<longleftrightarrow> inheritedName poleId \<and> pendingCommands c poleId = None"

definition queueCommand :: "jsenv \<Rightarrow> string \<Rightarrow> jsval \<times> jsval \<Rightarrow> ctx \<Rightarrow> ctx" where
  "queueCommand env poleId cmd c =
     (let q = (case pendingCommands c poleId of None \<Rightarrow> [] | Some xs \<Rightarrow> xs);
          cmdObj = \<lparr>action = fst cmd, reason = snd cmd, idTime = nowMs env,
                    timestamp = isoNow env, cmdStatus = ''PENDING''\<rparr>
      in c\<lparr>pendingCommands := (pendingCommands c)(poleId \<mapsto> q @ [cmdObj])\<rparr>)"

definition getCommands :: "string \<Rightarrow> ctx \<Rightarrow> command list \<times> ctx" where
  "getCommands poleId c =
     ((case pendingCommands c poleId of None \<Rightarrow> [] | Some xs \<Rightarrow> xs),
      c\<lparr>pendingCommands := (pendingCommands c)(poleId \<mapsto> [])\<rparr>)"

definition reset :: "ctx \<Rightarrow> ctx" where
  "reset c =
     emit EvUpdate (emit EvNormal
       (c\<lparr>poleStates := Map.empty, pendingCommands := emptyQueues,
          systemState := baseline (ctype c)\<rparr>))"

section \<open>The fault engine (FaultDetection.js)\<close>

definition faultSegment :: "string \<Rightarrow> string \<Rightarrow> string" where
  "faultSegment upstreamPoleId currentPoleId = upstreamPoleId @ ''-'' @ currentPoleId"

text \<open>\<open>!systemState.recoveryStartTime\<close>: \<open>null\<close> and \<open>0\<close> are both falsy.\<close>

definition timerUnset :: "int option \<Rightarrow> bool" where
  "timerUnset t = (case t of None \<Rightarrow> True | Some v \<Rightarrow> v = 0)"

definition faultCondition :: "jsobj \<Rightarrow> jsobj \<Rightarrow> bool" where
  "faultCondition currentState upstreamState \<longleftrightarrow>
     getProp currentState ''incomingCurrent'' = JStr ''LOW'' \<and>
     getProp upstreamState ''outgoingCurrent'' = JStr ''HIGH''"

definition recoveryCondition :: "jsobj \<Rightarrow> jsobj \<Rightarrow> bool" where
  "recoveryCondition currentState upstreamState \<longleftrightarrow>
     getProp currentState ''incomingCurrent'' = JStr ''HIGH'' \<and>
     getProp upstreamState ''outgoingCurrent'' = JStr ''HIGH''"

text \<open>The first \<open>if\<close> of the loop body: a new fault on the segment.\<close>

definition faultRule ::
  "(string \<Rightarrow> jsval \<times> jsval \<Rightarrow> ctx \<Rightarrow> ctx) \<Rightarrow> jsenv \<Rightarrow> string \<Rightarrow> string \<Rightarrow> ctx \<times> bool \<Rightarrow> ctx \<times> bool" where
  "faultRule queue env upstreamPoleId currentPoleId st =
     (let c = fst st; s = systemState c; seg = faultSegment upstreamPoleId currentPoleId;
          c1 = c\<lparr>systemState := s\<lparr>status := FAULT, faultType := Some ''WIRE_CUT'',
                   faultLocation := Some seg, lastFaultTime := Some (isoNow env),
                   recoveryStartTime := None,
                   isolatedSegments := isolatedSegments s @ [seg]\<rparr>\<rparr>;
          c2 = queue upstreamPoleId
                 (JStr ''DISABLE_OUTGOING_RELAY'',
                  JStr (''Fault detected between '' @ upstreamPoleId @ '' and '' @ currentPoleId)) c1
      in (emit (EvFault seg) c2, True))"

text \<open>The second \<open>if\<close> of the loop body: the recovery timer and, once it is due, the release.\<close>

definition recoveryRule ::
  "(string \<Rightarrow> jsval \<times> jsval \<Rightarrow> ctx \<Rightarrow> ctx) \<Rightarrow> jsenv \<Rightarrow> string \<Rightarrow> string \<Rightarrow> ctx \<times> bool \<Rightarrow> ctx \<times> bool" where
  "recoveryRule queue env upstreamPoleId currentPoleId st =
     (let c = fst st; s = systemState c; seg = faultSegment upstreamPoleId currentPoleId;
          start = (if timerUnset (recoveryStartTime s) then nowMs env
                   else the (recoveryStartTime s));
          stableFor = nowMs env - start
      in if stableFor \<ge> RECOVERY_STABLE_MS then
           (let remaining = filter (\<lambda>x. x \<noteq> seg) (isolatedSegments s);
                s1 = s\<lparr>isolatedSegments := remaining\<rparr>;
                s2 = (if remaining = []
                      then s1\<lparr>status := NORMAL, faultType := None, faultLocation := None\<rparr>
                      else s1);
                s3 = s2\<lparr>lastRecoveryTime := Some (isoNow env), recoveryStartTime := None\<rparr>;
                c1 = queue upstreamPoleId
                       (JStr ''ENABLE_OUTGOING_RELAY'',
                        JStr (''Fault cleared between '' @ upstreamPoleId @ '' and '' @ currentPoleId))
                       (c\<lparr>systemState := s3\<rparr>)
            in (emit (EvClear seg) c1, True))
         else (c\<lparr>systemState := s\<lparr>recoveryStartTime := Some start\<rparr>\<rparr>, snd st))"

text \<open>The body of the loop, once the two pole ids are known.\<close>

definition checkSegment ::
  "(string \<Rightarrow> jsval \<times> jsval \<Rightarrow> ctx \<Rightarrow> ctx) \<Rightarrow> jsenv \<Rightarrow> string \<Rightarrow> string \<Rightarrow> ctx \<times> bool \<Rightarrow> ctx \<times> bool" where
  "checkSegment queue env upstreamPoleId currentPoleId st =
     (let seg = faultSegment upstreamPoleId currentPoleId
      in case (poleStates (fst st) currentPoleId, poleStates (fst st) upstreamPoleId) of
           (Some currentState, Some upstreamState) \<Rightarrow>
             (let st1 = (if faultCondition currentState upstreamState \<and>
                            seg \<notin> set (isolatedSegments (systemState (fst st)))
                         then faultRule queue env upstreamPoleId currentPoleId st else st)
              in if recoveryCondition currentState upstreamState \<and>
                    seg \<in> set (isolatedSegments (systemState (fst st1)))
                 then recoveryRule queue env upstreamPoleId currentPoleId st1 else st1)
         | _ \<Rightarrow> st)"

text \<open>The loop over \<open>i = 1 .. POLE_ORDER.length - 1\<close> runs this at every \<open>i\<close>.\<close>

definition checkPair ::
  "(string \<Rightarrow> jsval \<times> jsval \<Rightarrow> ctx \<Rightarrow> ctx) \<Rightarrow> jsenv \<Rightarrow> nat \<Rightarrow> ctx \<times> bool \<Rightarrow> ctx \<times> bool" where
  "checkPair queue env i st =
     checkSegment queue env (POLE_ORDER ! (i - 1)) (POLE_ORDER ! i) st"

text \<open>The two tests on \<open>poleStates.Pole1\<close>, as functions of the store.\<close>

definition gridLow :: "(string \<rightharpoonup> jsobj) \<Rightarrow> bool" where
  "gridLow store =
     (case store ''Pole1'' of None \<Rightarrow> False
      | Some p1 \<Rightarrow> getProp p1 ''incomingCurrent'' = JStr ''LOW'')"

definition gridHigh :: "(string \<rightharpoonup> jsobj) \<Rightarrow> bool" where
  "gridHigh store =
     (case store ''Pole1'' of None \<Rightarrow> False
      | Some p1 \<Rightarrow> getProp p1 ''incomingCurrent'' = JStr ''HIGH'')"

text \<open>
  \<open>runFaultEngine(ctx, queueCommand, io)\<close>. Both managers pass their own \<open>io\<close>, so the engine
  emits on the context's \<open>io\<close>; the result is the context as the call leaves it and the
  returned flag \<open>stateChanged\<close>.
\<close>

definition runFaultEngine ::
  "(string \<Rightarrow> jsval \<times> jsval \<Rightarrow> ctx \<Rightarrow> ctx) \<Rightarrow> jsenv \<Rightarrow> ctx \<Rightarrow> ctx \<times> bool" where
  "runFaultEngine queue env c =
     (let s = systemState c in
      if gridLow (poleStates c) then
        (if status s \<noteq> GRID_DOWN
         then (emit EvGridDown
                 (c\<lparr>systemState := s\<lparr>status := GRID_DOWN, faultType := Some ''GRID_DOWN'',
                        faultLocation := Some ''Grid'', lastFaultTime := Some (isoNow env),
                        recoveryStartTime := None\<rparr>\<rparr>), True)
         else (c, False))
      else if gridHigh (poleStates c) \<and> status s = GRID_DOWN then
        (emit EvNormal
           (c\<lparr>systemState := s\<lparr>status := NORMAL, faultType := None, faultLocation := None,
                  lastRecoveryTime := Some (isoNow env), isolatedSegments := []\<rparr>\<rparr>), True)
      else foldl (\<lambda>st i. checkPair queue env i st) (c, False) [1 ..< length POLE_ORDER])"

text \<open>
  \<open>updatePole\<close>: store the snapshot, stamp the node, run the engine, broadcast. The two
  assignments create or overwrite an own entry at every pole id but \<open>__proto__\<close>: there the
  first one makes the snapshot the prototype of the snapshot table (a read at that name
  then returns it) and the second one is ignored, so the last-seen table gets no entry.
  The definition is for the other ids.
\<close>

definition updatePole :: "jsenv \<Rightarrow> string \<Rightarrow> jsobj \<Rightarrow> ctx \<Rightarrow> ctx" where
  "updatePole env poleId data c =
     (let c1 = c\<lparr>poleStates := (poleStates c)(poleId \<mapsto> data),
                 lastUpdateTime := (lastUpdateTime c)(poleId \<mapsto> nowMs env)\<rparr>;
          r = runFaultEngine (queueCommand env) env c1;
          c2 = emit (EvPoleUpdate poleId) (fst r)
      in if snd r then emit EvUpdate c2 else c2)"

section \<open>The staleness sweep (startStalenessCheck)\<close>

text \<open>
  The callback that \<open>setInterval\<close> runs every 5000 ms, as a function of the clock value it
  reads. The accumulator carries the context, \<open>anyActive\<close> and \<open>anyWentStale\<close>.
\<close>

definition staleStep :: "int \<Rightarrow> string \<Rightarrow> ctx \<times> bool \<times> bool \<Rightarrow> ctx \<times> bool \<times> bool" where
  "staleStep now poleId acc =
     (let c = fst acc; anyActive = fst (snd acc); anyWentStale = snd (snd acc)
      in case lastUpdateTime c poleId of
           None \<Rightarrow> acc
         | Some t \<Rightarrow>
             if t > 0 then
               (if now - t > STALE_TIMEOUT_MS then
                  (if poleStates c poleId \<noteq> None
                   then (c\<lparr>poleStates := (poleStates c)(poleId := None),
                            lastUpdateTime := (lastUpdateTime c)(poleId \<mapsto> 0)\<rparr>,
                         anyActive, True)
                   else acc)
                else (c, True, anyWentStale))
             else acc)"

definition stalenessCheck :: "int \<Rightarrow> ctx \<Rightarrow> ctx" where
  "stalenessCheck now c =
     (let r = foldl (\<lambda>acc poleId. staleStep now poleId acc) (c, False, False) POLE_ORDER;
          c1 = fst r; anyActive = fst (snd r); anyWentStale = snd (snd r)
      in if anyWentStale \<and> \<not> anyActive then reset c1
         else if anyWentStale \<and> io c1 \<noteq> None
         then foldl (\<lambda>c' poleId. emit (EvPoleUpdate poleId) c') (emit EvUpdate c1) POLE_ORDER
         else c1)"

text \<open>A node is fresh when it has a recorded last-seen time that is at most 15 s old.\<close>

definition fresh :: "int \<Rightarrow> ctx \<Rightarrow> string \<Rightarrow> bool" where
  "fresh now c poleId =
     (case lastUpdateTime c poleId of None \<Rightarrow> False
      | Some t \<Rightarrow> t > 0 \<and> now - t \<le> STALE_TIMEOUT_MS)"

section \<open>The coordination routes (routes/coordination.js)\<close>

datatype mode = IDLE | REAL | SIM

record arbiter =
  systemMode :: mode
  RealSystem :: ctx
  SimSystem :: ctx

datatype response =
    ErrorResponse nat string
  | SuccessResponse
  | StateResponse jsobj
  | OfflineResponse string
  | CommandsResponse string "command list"

text \<open>\<open>startStalenessCheck\<close> arms the timer; \<open>appIo\<close> says whether the app holds an io instance.\<close>

definition attachIO :: "ctx \<Rightarrow> ctx" where
  "attachIO c = (if io c = None then c\<lparr>io := Some [], stalenessTimer := True\<rparr> else c)"

definition ensureManagerIO :: "bool \<Rightarrow> arbiter \<Rightarrow> arbiter" where
  "ensureManagerIO appIo a =
     (if appIo then a\<lparr>RealSystem := attachIO (RealSystem a), SimSystem := attachIO (SimSystem a)\<rparr>
      else a)"

text \<open>\<open>req.body.isSimulation === true\<close>\<close>

definition isSimPayload :: "jsobj \<Rightarrow> bool" where
  "isSimPayload body \<longleftrightarrow> getProp body ''isSimulation'' = JBool True"

text \<open>The three mode-enforcement lines shared by \<open>POST /state\<close> and \<open>POST /command\<close>.\<close>

definition modeError :: "mode \<Rightarrow> jsobj \<Rightarrow> response option" where
  "modeError currentMode body =
     (if currentMode = IDLE then Some (ErrorResponse 403 ''System is IDLE'')
      else if currentMode = REAL \<and> isSimPayload body then Some (ErrorResponse 403 ''REAL mode active'')
      else if currentMode = SIM \<and> \<not> isSimPayload body then Some (ErrorResponse 403 ''SIM mode active'')
      else None)"

text \<open>\<open>if (req.body.code) v = req.body.code\<close>\<close>

definition shortCode :: "jsobj \<Rightarrow> string \<Rightarrow> jsval \<Rightarrow> jsval" where
  "shortCode body code v = (if truthy (getProp body code) then getProp body code else v)"

text \<open>The five variables the short codes may overwrite, in the order
  \<open>(relayIn, relayOut, incomingCurrent, outgoingCurrent, voltage)\<close>.\<close>

definition mapShortCodes ::
  "jsobj \<Rightarrow> jsval \<times> jsval \<times> jsval \<times> jsval \<times> jsval" where
  "mapShortCodes body =
     (let poleId = getProp body ''poleId'';
          relayIn = getProp body ''relayIn''; relayOut = getProp body ''relayOut'';
          incomingCurrent = getProp body ''incomingCurrent'';
          outgoingCurrent = getProp body ''outgoingCurrent'';
          voltage = getProp body ''voltage''
      in if poleId = JStr ''Pole1'' then
           (shortCode body ''par1'' relayIn, shortCode body ''par2'' relayOut,
            shortCode body ''pac1'' incomingCurrent, shortCode body ''pac2'' outgoingCurrent,
            shortCode body ''pav1'' voltage)
         else if poleId \<noteq> JStr ''Pole4'' then
           (if poleId = JStr ''Pole2'' then
              (shortCode body ''pbr1'' relayIn, shortCode body ''pbr2'' relayOut,
               shortCode body ''pbc1'' incomingCurrent, shortCode body ''pbc2'' outgoingCurrent,
               shortCode body ''pbv1'' voltage)
            else if poleId = JStr ''Pole3'' then
              (shortCode body ''pcr1'' relayIn, shortCode body ''pcr2'' relayOut,
               shortCode body ''pcc1'' incomingCurrent, shortCode body ''pcc2'' outgoingCurrent,
               shortCode body ''pcv1'' voltage)
            else (relayIn, relayOut, incomingCurrent, outgoingCurrent, voltage))
         else
           (relayIn, relayOut, shortCode body ''pdc'' incomingCurrent, outgoingCurrent,
            shortCode body ''pdv'' voltage))"

text \<open>The object literal \<open>stateData\<close>: the sanitized fields first, then \<open>...req.body\<close>.\<close>

definition sanitized :: "jsenv \<Rightarrow> jsobj \<Rightarrow> jsobj" where
  "sanitized env body =
     (let poleId = getProp body ''poleId'';
          m = mapShortCodes body;
          relayIn = fst m; relayOut = fst (snd m); incomingCurrent = fst (snd (snd m));
          outgoingCurrent = fst (snd (snd (snd m))); voltage = snd (snd (snd (snd m)));
          terminal = (poleId = JStr ''Pole4'')
      in [''poleId'' \<mapsto> poleId,
          ''incomingCurrent'' \<mapsto> js_or incomingCurrent (JStr ''UNKNOWN''),
          ''outgoingCurrent'' \<mapsto> (if terminal then JStr ''N/A'' else js_or outgoingCurrent (JStr ''UNKNOWN'')),
          ''relayIn'' \<mapsto> (if terminal then JStr ''N/A'' else js_or relayIn (JStr ''OFF'')),
          ''relayOut'' \<mapsto> (if terminal then JStr ''N/A'' else js_or relayOut (JStr ''OFF'')),
          ''nodeState'' \<mapsto> js_or (getProp body ''nodeState'') (JStr ''NORMAL''),
          ''faultFlag'' \<mapsto> js_or (getProp body ''faultFlag'') (JBool False),
          ''voltage'' \<mapsto> js_or (parseFloat env voltage) (JNum 0),
          ''current'' \<mapsto> js_or (parseFloat env (getProp body ''current'')) (JNum 0),
          ''timestamp'' \<mapsto> js_or (getProp body ''timestamp'') (JStr (isoNow env))])"

definition stateData :: "jsenv \<Rightarrow> jsobj \<Rightarrow> jsobj" where
  "stateData env body = sanitized env body ++ body"

text \<open>\<open>isSimulation ? SimSystem : RealSystem\<close>, as an update of the chosen manager.\<close>

definition onManager :: "jsobj \<Rightarrow> (ctx \<Rightarrow> ctx) \<Rightarrow> arbiter \<Rightarrow> arbiter" where
  "onManager body f a =
     (if truthy (getProp body ''isSimulation'') then a\<lparr>SimSystem := f (SimSystem a)\<rparr>
      else a\<lparr>RealSystem := f (RealSystem a)\<rparr>)"

text \<open>
  \<open>POST /state\<close>. The body is the parsed JSON object of the request. The handler's
  \<open>catch\<close> answers 500; nothing inside its \<open>try\<close> raises on such a body, so that branch has no
  counterpart here.
\<close>

definition postState :: "jsenv \<Rightarrow> bool \<Rightarrow> jsobj \<Rightarrow> arbiter \<Rightarrow> response \<times> arbiter" where
  "postState env appIo body a0 =
     (let a = ensureManagerIO appIo a0
      in case modeError (systemMode a) body of
           Some err \<Rightarrow> (err, a)
         | None \<Rightarrow>
             (SuccessResponse,
              onManager body
                (updatePole env (propertyKey env (getProp body ''poleId'')) (stateData env body)) a))"

text \<open>
  \<open>POST /command\<close>. The handler has no \<open>try\<close>; when \<open>queueCommand\<close> raises, the
  framework answers 500 and nothing has been queued or emitted.
\<close>

definition postCommand :: "jsenv \<Rightarrow> bool \<Rightarrow> jsobj \<Rightarrow> arbiter \<Rightarrow> response \<times> arbiter" where
  "postCommand env appIo body a0 =
     (let a = ensureManagerIO appIo a0
      in case modeError (systemMode a) body of
           Some err \<Rightarrow> (err, a)
         | None \<Rightarrow>
             (let poleId = getProp body ''poleId''; act = getProp body ''action''
              in if \<not> truthy poleId \<or> \<not> truthy act
                 then (ErrorResponse 400 ''Missing fields'', a)
                 else if pushThrows (if truthy (getProp body ''isSimulation'')
                                     then SimSystem a else RealSystem a) (propertyKey env poleId)
                 then (ErrorResponse 500 ''TypeError'', a)
                 else (SuccessResponse,
                       onManager body
                         (\<lambda>c. emit (EvCommand (propertyKey env poleId))
                                (queueCommand env (propertyKey env poleId)
                                   (act, js_or (getProp body ''reason'') (JStr ''Manual command'')) c))
                         a)))"

text \<open>\<open>GET /state/:poleId\<close> and \<open>GET /commands/:poleId\<close>; \<open>isSim\<close> is \<open>req.query.sim === 'true'\<close>.\<close>

definition getState :: "bool \<Rightarrow> string \<Rightarrow> bool \<Rightarrow> arbiter \<Rightarrow> response \<times> arbiter" where
  "getState appIo poleId isSim a0 =
     (let a = ensureManagerIO appIo a0;
          manager = (if isSim then SimSystem a else RealSystem a)
      in if poleId \<notin> set POLE_ORDER then (ErrorResponse 400 ''Invalid poleId'', a)
         else case poleStates manager poleId of
                None \<Rightarrow> (OfflineResponse poleId, a)
              | Some s \<Rightarrow> (StateResponse s, a))"

definition getCommandsRoute :: "bool \<Rightarrow> string \<Rightarrow> bool \<Rightarrow> arbiter \<Rightarrow> response \<times> arbiter" where
  "getCommandsRoute appIo poleId isSim a0 =
     (let a = ensureManagerIO appIo a0
      in if poleId \<notin> set POLE_ORDER then (ErrorResponse 400 ''Invalid poleId'', a)
         else if isSim
              then (CommandsResponse poleId (fst (getCommands poleId (SimSystem a))),
                    a\<lparr>SimSystem := snd (getCommands poleId (SimSystem a))\<rparr>)
              else (CommandsResponse poleId (fst (getCommands poleId (RealSystem a))),
                    a\<lparr>RealSystem := snd (getCommands poleId (RealSystem a))\<rparr>))"

section \<open>The node state machine (utility_pole_monitor.ino)\<close>

text \<open>
  \<open>POLE_NUMBER\<close> is a compile-time constant of the sketch; it is a parameter here, and
  every \<open>#if\<close> on it is an \<open>if\<close>. \<open>millis()\<close> is an \<open>unsigned long\<close>, 32 bits on the
  board, so times are words and their differences wrap. The RMS values are floats in the
  sketch; they are reals here, with \<open>None\<close> for a NaN reading.
\<close>

datatype NodeState =
    STATE_NORMAL
  | STATE_GRID_DOWN
  | STATE_FAULT_UPSTREAM
  | STATE_FAULT_DOWNSTREAM
  | STATE_RECOVERY

record node =
  currentState :: NodeState
  incomingCurrentHigh :: bool
  outgoingCurrentHigh :: bool
  relayInEnabled :: bool
  relayOutEnabled :: bool
  measuredVoltage :: real
  measuredCurrent :: real
  faultFlag :: bool
  upstreamOutHigh :: bool
  upstreamDataValid :: bool
  faultStartTime :: "32 word"
  recoveryStart :: "32 word"
  buzzer :: bool

definition IS_TERMINAL :: "nat \<Rightarrow> bool" where
  "IS_TERMINAL poleNumber \<longleftrightarrow> poleNumber = 4"

definition CURRENT_THRESHOLD :: int where
  "CURRENT_THRESHOLD = 512"

definition OVERVOLTAGE_THRESHOLD :: real where
  "OVERVOLTAGE_THRESHOLD = 260"

definition OVERCURRENT_THRESHOLD :: real where
  "OVERCURRENT_THRESHOLD = 15"

definition DEBOUNCE_MS :: "32 word" where
  "DEBOUNCE_MS = 500"

definition RECOVERY_MS :: "32 word" where
  "RECOVERY_MS = 3000"

text \<open>What one pass of the loop reads from the pins, the RMS values already computed.\<close>

record sample =
  inVal :: int
  outVal :: int
  rmsVoltage :: "real option"
  rmsCurrent :: "real option"

definition readCurrentSensors :: "nat \<Rightarrow> sample \<Rightarrow> node \<Rightarrow> node" where
  "readCurrentSensors poleNumber x n =
     n\<lparr>incomingCurrentHigh := (inVal x > CURRENT_THRESHOLD),
       outgoingCurrentHigh := (if IS_TERMINAL poleNumber then False
                                else outVal x > CURRENT_THRESHOLD)\<rparr>"

definition readVoltageCurrent :: "sample \<Rightarrow> node \<Rightarrow> node" where
  "readVoltageCurrent x n =
     (let v = (case rmsVoltage x of None \<Rightarrow> 0 | Some r \<Rightarrow> r);
          i = (case rmsCurrent x of None \<Rightarrow> 0 | Some r \<Rightarrow> r)
      in if incomingCurrentHigh n then n\<lparr>measuredVoltage := v, measuredCurrent := i\<rparr>
         else n\<lparr>measuredVoltage := 0, measuredCurrent := 0\<rparr>)"

definition enableRelay :: "nat \<Rightarrow> bool \<Rightarrow> bool \<Rightarrow> node \<Rightarrow> node" where
  "enableRelay poleNumber isIncoming enable n =
     (if isIncoming then (if poleNumber \<noteq> 4 then n\<lparr>relayInEnabled := enable\<rparr> else n)
      else (if \<not> IS_TERMINAL poleNumber then n\<lparr>relayOutEnabled := enable\<rparr> else n))"

text \<open>The debounce shared by the two mismatch checks of \<open>handleNormalState\<close>.\<close>

definition debounce :: "32 word \<Rightarrow> NodeState \<Rightarrow> node \<Rightarrow> node" where
  "debounce now target n =
     (let n1 = (if faultStartTime n = 0 then n\<lparr>faultStartTime := now\<rparr> else n)
      in if now - faultStartTime n1 \<ge> DEBOUNCE_MS
         then n1\<lparr>currentState := target, faultFlag := True, faultStartTime := 0\<rparr>
         else n1)"

definition overCheck :: "nat \<Rightarrow> node \<Rightarrow> node" where
  "overCheck poleNumber n =
     (if measuredVoltage n > OVERVOLTAGE_THRESHOLD \<or> measuredCurrent n > OVERCURRENT_THRESHOLD
      then (let n1 = enableRelay poleNumber True False (n\<lparr>faultFlag := True\<rparr>);
                n2 = (if \<not> IS_TERMINAL poleNumber then enableRelay poleNumber False False n1 else n1)
            in n2\<lparr>buzzer := True\<rparr>)
      else n)"

definition handleNormalState :: "nat \<Rightarrow> 32 word \<Rightarrow> node \<Rightarrow> node" where
  "handleNormalState poleNumber now n =
     (let n0 = n\<lparr>faultFlag := False, buzzer := False\<rparr>
      in if poleNumber = 1 then
           (if \<not> incomingCurrentHigh n0 then debounce now STATE_GRID_DOWN n0
            else overCheck poleNumber (n0\<lparr>faultStartTime := 0\<rparr>))
         else if poleNumber > 1 then
           (if \<not> incomingCurrentHigh n0 \<and> upstreamDataValid n0 \<and> upstreamOutHigh n0
            then debounce now STATE_FAULT_UPSTREAM n0
            else overCheck poleNumber (n0\<lparr>faultStartTime := 0\<rparr>))
         else overCheck poleNumber n0)"

definition handleGridDownState :: "nat \<Rightarrow> 32 word \<Rightarrow> node \<Rightarrow> node" where
  "handleGridDownState poleNumber now n =
     (let n0 = n\<lparr>faultFlag := True, buzzer := True\<rparr>
      in if incomingCurrentHigh n0
         then n0\<lparr>currentState := STATE_NORMAL, faultFlag := False, buzzer := False\<rparr>
         else n0)"

definition handleFaultUpstreamState :: "nat \<Rightarrow> 32 word \<Rightarrow> node \<Rightarrow> node" where
  "handleFaultUpstreamState poleNumber now n =
     (let n0 = n\<lparr>faultFlag := True, buzzer := True\<rparr>
      in if incomingCurrentHigh n0
         then n0\<lparr>currentState := STATE_NORMAL, faultFlag := False, buzzer := False\<rparr>
         else n0)"

definition handleFaultDownstreamState :: "nat \<Rightarrow> 32 word \<Rightarrow> node \<Rightarrow> node" where
  "handleFaultDownstreamState poleNumber now n =
     (let n0 = n\<lparr>faultFlag := True\<rparr>
      in if \<not> IS_TERMINAL poleNumber \<and> outgoingCurrentHigh n0
         then n0\<lparr>currentState := STATE_RECOVERY, recoveryStart := now\<rparr>
         else n0)"

definition handleRecoveryState :: "nat \<Rightarrow> 32 word \<Rightarrow> node \<Rightarrow> node" where
  "handleRecoveryState poleNumber now n =
     (let stable = (incomingCurrentHigh n \<and>
                    (IS_TERMINAL poleNumber \<or> outgoingCurrentHigh n \<or> \<not> relayOutEnabled n))
      in if \<not> stable then n\<lparr>currentState := STATE_FAULT_DOWNSTREAM, recoveryStart := 0\<rparr>
         else if now - recoveryStart n \<ge> RECOVERY_MS
         then (let n1 = n\<lparr>currentState := STATE_NORMAL, faultFlag := False\<rparr>;
                   n2 = (if \<not> IS_TERMINAL poleNumber then enableRelay poleNumber False True n1 else n1)
               in n2\<lparr>buzzer := False, recoveryStart := 0\<rparr>)
         else n)"

definition runStateMachine :: "nat \<Rightarrow> 32 word \<Rightarrow> node \<Rightarrow> node" where
  "runStateMachine poleNumber now n =
     (case currentState n of
        STATE_NORMAL \<Rightarrow> handleNormalState poleNumber now n
      | STATE_GRID_DOWN \<Rightarrow> handleGridDownState poleNumber now n
      | STATE_FAULT_UPSTREAM \<Rightarrow> handleFaultUpstreamState poleNumber now n
      | STATE_FAULT_DOWNSTREAM \<Rightarrow> handleFaultDownstreamState poleNumber now n
      | STATE_RECOVERY \<Rightarrow> handleRecoveryState poleNumber now n)"

text \<open>Steps 1 and 2 of \<open>loop()\<close>: read the sensors, run the state machine.\<close>

definition controlTick :: "nat \<Rightarrow> 32 word \<times> sample \<Rightarrow> node \<Rightarrow> node" where
  "controlTick poleNumber tick n =
     runStateMachine poleNumber (fst tick)
       (readVoltageCurrent (snd tick) (readCurrentSensors poleNumber (snd tick) n))"

text \<open>
  \<open>pollCommands\<close>, given the HTTP status and the response body of the command poll and
  the value \<open>millis()\<close> returns inside it. \<open>body.indexOf(x) >= 0\<close> holds exactly when
  \<open>x\<close> occurs in \<open>body\<close> as a contiguous run of characters.
\<close>

definition pollCommands :: "nat \<Rightarrow> 32 word \<Rightarrow> int \<times> string \<Rightarrow> node \<Rightarrow> node" where
  "pollCommands poleNumber millis resp n =
     (if fst resp = 200 then
        (let body = snd resp;
             n1 = (if sublist ''DISABLE_OUTGOING_RELAY'' body \<and> \<not> IS_TERMINAL poleNumber
                   then (enableRelay poleNumber False False n)
                          \<lparr>currentState := STATE_FAULT_DOWNSTREAM, faultFlag := True, buzzer := True\<rparr>
                   else n)
         in if sublist ''ENABLE_OUTGOING_RELAY'' body \<and> \<not> sublist ''DISABLE'' body \<and>
               \<not> IS_TERMINAL poleNumber
            then (enableRelay poleNumber False True n1)
                   \<lparr>currentState := STATE_RECOVERY, recoveryStart := millis\<rparr>
            else n1)
      else n)"

section \<open>Notions the statements use\<close>

subsection \<open>The fault engine, segment by segment\<close>

text \<open>\<open>POLE_ORDER\<close> has four entries, so the loop makes three passes, in chain order.\<close>

definition sweep :: "jsenv \<Rightarrow> ctx \<times> bool \<Rightarrow> ctx \<times> bool" where
  "sweep env st =
     checkSegment (queueCommand env) env ''Pole3'' ''Pole4''
       (checkSegment (queueCommand env) env ''Pole2'' ''Pole3''
         (checkSegment (queueCommand env) env ''Pole1'' ''Pole2'' st))"

text \<open>The pairs the loop visits, in the order it visits them.\<close>

definition adjacentPairs :: "(string \<times> string) list" where
  "adjacentPairs = zip (butlast POLE_ORDER) (tl POLE_ORDER)"

text \<open>Both snapshots exist and the fault test (the recovery test) on them holds.\<close>

definition mismatch :: "(string \<rightharpoonup> jsobj) \<Rightarrow> string \<Rightarrow> string \<Rightarrow> bool" where
  "mismatch store u d =
     (case (store d, store u) of
        (Some cs, Some us) \<Rightarrow> faultCondition cs us
      | _ \<Rightarrow> False)"

definition restored :: "(string \<rightharpoonup> jsobj) \<Rightarrow> string \<Rightarrow> string \<Rightarrow> bool" where
  "restored store u d =
     (case (store d, store u) of
        (Some cs, Some us) \<Rightarrow> recoveryCondition cs us
      | _ \<Rightarrow> False)"

text \<open>The command objects the two rules queue, and a queue read without draining it.\<close>

definition disableCommand :: "jsenv \<Rightarrow> string \<Rightarrow> string \<Rightarrow> command" where
  "disableCommand env u d =
     \<lparr>action = JStr ''DISABLE_OUTGOING_RELAY'',
      reason = JStr (''Fault detected between '' @ u @ '' and '' @ d),
      idTime = nowMs env, timestamp = isoNow env, cmdStatus = ''PENDING''\<rparr>"

definition enableCommand :: "jsenv \<Rightarrow> string \<Rightarrow> string \<Rightarrow> command" where
  "enableCommand env u d =
     \<lparr>action = JStr ''ENABLE_OUTGOING_RELAY'',
      reason = JStr (''Fault cleared between '' @ u @ '' and '' @ d),
      idTime = nowMs env, timestamp = isoNow env, cmdStatus = ''PENDING''\<rparr>"

definition queueOf :: "ctx \<Rightarrow> string \<Rightarrow> command list" where
  "queueOf c poleId = (case pendingCommands c poleId of None \<Rightarrow> [] | Some xs \<Rightarrow> xs)"

text \<open>The engine as \<open>updatePole\<close> runs it: on the store as it is after the publish.\<close>

definition engineRun :: "jsenv \<times> (string \<rightharpoonup> jsobj) \<Rightarrow> ctx \<Rightarrow> ctx" where
  "engineRun r c = fst (runFaultEngine (queueCommand (fst r)) (fst r) (c\<lparr>poleStates := snd r\<rparr>))"

definition engineRuns :: "(jsenv \<times> (string \<rightharpoonup> jsobj)) list \<Rightarrow> ctx \<Rightarrow> ctx" where
  "engineRuns rs c = foldl (\<lambda>c' r. engineRun r c') c rs"

text \<open>The recovery timer as the recovery rule reads it at clock value \<open>now\<close>.\<close>

definition timerStart :: "int \<Rightarrow> systemState \<Rightarrow> int" where
  "timerStart now s = (if timerUnset (recoveryStartTime s) then now else the (recoveryStartTime s))"

text \<open>At clock value \<open>now\<close> the recovery rule would release the segment.\<close>

definition recoveryDue :: "int \<Rightarrow> ctx \<Rightarrow> string \<times> string \<Rightarrow> bool" where
  "recoveryDue now c p =
     (restored (poleStates c) (fst p) (snd p) \<and>
      faultSegment (fst p) (snd p) \<in> set (isolatedSegments (systemState c)) \<and>
      RECOVERY_STABLE_MS \<le> now - timerStart now (systemState c))"

text \<open>A mismatch the store shows is already recorded as an isolation.\<close>

definition recorded :: "ctx \<Rightarrow> string \<times> string \<Rightarrow> bool" where
  "recorded c p =
     (\<not> mismatch (poleStates c) (fst p) (snd p) \<or>
      faultSegment (fst p) (snd p) \<in> set (isolatedSegments (systemState c)))"

text \<open>The sweep at clock value \<open>now\<close> would release no segment: it stops at the grid test,
  or no pair's recovery is due.\<close>

definition noRecoveryDue :: "int \<Rightarrow> ctx \<Rightarrow> bool" where
  "noRecoveryDue now c =
     (gridLow (poleStates c) \<or> (\<forall>p \<in> set adjacentPairs. \<not> recoveryDue now c p))"

text \<open>A pass of the loop over pair \<open>q\<close> does nothing when, with \<open>I\<close> the isolated segments,
  \<open>q\<close> neither shows a mismatch on a segment outside \<open>I\<close> (which would raise a fault) nor
  power on both sides of a segment in \<open>I\<close> (which would run the recovery rule and touch the
  timer). Below, every pair other than \<open>p\<close> is in that case.\<close>

definition atRest :: "string set \<Rightarrow> (string \<rightharpoonup> jsobj) \<Rightarrow> string \<times> string \<Rightarrow> bool" where
  "atRest I store q \<longleftrightarrow>
     \<not> (mismatch store (fst q) (snd q) \<and> faultSegment (fst q) (snd q) \<notin> I) \<and>
     \<not> (restored store (fst q) (snd q) \<and> faultSegment (fst q) (snd q) \<in> I)"

definition othersAtRest :: "string \<times> string \<Rightarrow> string set \<Rightarrow> (string \<rightharpoonup> jsobj) \<Rightarrow> bool" where
  "othersAtRest p I store \<longleftrightarrow> (\<forall>q \<in> set adjacentPairs. q \<noteq> p \<longrightarrow> atRest I store q)"

text \<open>The pairs the loop visits after \<open>p\<close>, and a pair on which a run on \<open>store\<close> raises a
  new fault.\<close>

definition laterPairs :: "string \<times> string \<Rightarrow> (string \<times> string) list" where
  "laterPairs p = tl (dropWhile (\<lambda>q. q \<noteq> p) adjacentPairs)"

definition newFault :: "ctx \<Rightarrow> (string \<rightharpoonup> jsobj) \<Rightarrow> string \<times> string \<Rightarrow> bool" where
  "newFault c store q \<longleftrightarrow>
     mismatch store (fst q) (snd q) \<and>
     faultSegment (fst q) (snd q) \<notin> set (isolatedSegments (systemState c))"

text \<open>The kinds of run that follow the fault on pair \<open>p\<close>: the engine runs at \<open>fst r\<close> on
  the store \<open>snd r\<close>, the first node does not report LOW, every other pair is at rest, and
  pair \<open>p\<close> shows power on both sides, or does not.\<close>

definition restoredRun ::
  "string \<times> string \<Rightarrow> string set \<Rightarrow> jsenv \<times> (string \<rightharpoonup> jsobj) \<Rightarrow> bool" where
  "restoredRun p I r \<longleftrightarrow>
     \<not> gridLow (snd r) \<and> restored (snd r) (fst p) (snd p) \<and> othersAtRest p I (snd r)"

definition unrestoredRun ::
  "string \<times> string \<Rightarrow> string set \<Rightarrow> jsenv \<times> (string \<rightharpoonup> jsobj) \<Rightarrow> bool" where
  "unrestoredRun p I r \<longleftrightarrow>
     \<not> gridLow (snd r) \<and> \<not> restored (snd r) (fst p) (snd p) \<and> othersAtRest p I (snd r)"

text \<open>The isolated segments of \<open>c\<close> are those of \<open>I\<close>, the segment of \<open>p\<close> apart.\<close>

definition sameElsewhere :: "string \<times> string \<Rightarrow> string set \<Rightarrow> ctx \<Rightarrow> bool" where
  "sameElsewhere p I c \<longleftrightarrow>
     (\<forall>x. x \<noteq> faultSegment (fst p) (snd p) \<longrightarrow>
          (x \<in> set (isolatedSegments (systemState c))) = (x \<in> I))"

text \<open>The states of the round trip on pair \<open>p\<close>, with \<open>q\<close> the queue of the upstream pole:
  the segment is isolated; it is isolated and the recovery timer runs since \<open>t\<close>; it has
  been released by one ENABLE command.\<close>

definition held :: "string \<times> string \<Rightarrow> string set \<Rightarrow> command list \<Rightarrow> ctx \<Rightarrow> bool" where
  "held p I q c \<longleftrightarrow>
     faultSegment (fst p) (snd p) \<in> set (isolatedSegments (systemState c)) \<and>
     sameElsewhere p I c \<and> status (systemState c) \<noteq> GRID_DOWN \<and> queueOf c (fst p) = q"

definition timing :: "string \<times> string \<Rightarrow> string set \<Rightarrow> int \<Rightarrow> command list \<Rightarrow> ctx \<Rightarrow> bool" where
  "timing p I t q c \<longleftrightarrow> held p I q c \<and> recoveryStartTime (systemState c) = Some t"

definition released :: "string \<times> string \<Rightarrow> string set \<Rightarrow> command list \<Rightarrow> ctx \<Rightarrow> bool" where
  "released p I q c \<longleftrightarrow>
     faultSegment (fst p) (snd p) \<notin> set (isolatedSegments (systemState c)) \<and>
     sameElsewhere p I c \<and> status (systemState c) \<noteq> GRID_DOWN \<and>
     (\<exists>e. queueOf c (fst p) = q @ [enableCommand e (fst p) (snd p)])"

subsection \<open>Requests, the staleness sweep, control ticks\<close>

text \<open>The manager a request body selects.\<close>

definition managerOf :: "jsobj \<Rightarrow> arbiter \<Rightarrow> ctx" where
  "managerOf body a = (if truthy (getProp body ''isSimulation'') then SimSystem a else RealSystem a)"

text \<open>A node whose recorded last-seen time is more than 15 s old, and the loop of the sweep
  over a list of poles.\<close>

definition expired :: "int \<Rightarrow> ctx \<Rightarrow> string \<Rightarrow> bool" where
  "expired now c poleId =
     (case lastUpdateTime c poleId of None \<Rightarrow> False
      | Some t \<Rightarrow> t > 0 \<and> now - t > STALE_TIMEOUT_MS)"

definition staleLoop :: "int \<Rightarrow> string list \<Rightarrow> ctx \<times> bool \<times> bool \<Rightarrow> ctx \<times> bool \<times> bool" where
  "staleLoop now ps acc = foldl (\<lambda>acc poleId. staleStep now poleId acc) acc ps"

text \<open>A run of control ticks, each a clock value and what the pins read.\<close>

definition runTicks :: "nat \<Rightarrow> (32 word \<times> sample) list \<Rightarrow> node \<Rightarrow> node" where
  "runTicks poleNumber ticks n = foldl (\<lambda>n' tick. controlTick poleNumber tick n') n ticks"

text \<open>The reading of a tick shows no incoming current.\<close>

definition incomingLow :: "32 word \<times> sample \<Rightarrow> bool" where
  "incomingLow tick \<longleftrightarrow> \<not> inVal (snd tick) > CURRENT_THRESHOLD"

section \<open>Concrete inputs\<close>

text \<open>An environment whose clock reads \<open>t\<close>, and a snapshot with the two current fields.\<close>

definition envAt :: "int \<Rightarrow> jsenv" where
  "envAt t = \<lparr>nowMs = t, isoNow = ''t'', parseFloat = (\<lambda>v. v), numKey = (\<lambda>v. ''num'')\<rparr>"

definition snapshot :: "string \<Rightarrow> string \<Rightarrow> jsobj" where
  "snapshot inc out = [''incomingCurrent'' \<mapsto> JStr inc, ''outgoingCurrent'' \<mapsto> JStr out]"

text \<open>The arbiter in REAL mode before any publish.\<close>

definition realArbiter :: arbiter where
  "realArbiter = \<lparr>systemMode = REAL, RealSystem = newSystem RealCtx, SimSystem = newSystem SimCtx\<rparr>"

text \<open>The grid is down at Pole1 while Pole1-Pole2 also shows a mismatch.\<close>

definition gridDownCtx :: ctx where
  "gridDownCtx = (newSystem RealCtx)\<lparr>poleStates :=
      [''Pole1'' \<mapsto> snapshot ''LOW'' ''HIGH'', ''Pole2'' \<mapsto> snapshot ''LOW'' ''LOW'']\<rparr>"

text \<open>Pole1 has power and sends it on, Pole2 receives none: with the status still
  GRID_DOWN (as Pole1's publish of HIGH finds the context after an outage), and with the
  status NORMAL.\<close>

definition cutStore :: "string \<rightharpoonup> jsobj" where
  "cutStore = [''Pole1'' \<mapsto> snapshot ''HIGH'' ''HIGH'', ''Pole2'' \<mapsto> snapshot ''LOW'' ''LOW'']"

definition restoreCtx :: ctx where
  "restoreCtx = (newSystem RealCtx)
     \<lparr>poleStates := cutStore,
      systemState := (baseline RealCtx)\<lparr>status := GRID_DOWN, faultType := Some ''GRID_DOWN'',
                        faultLocation := Some ''Grid''\<rparr>\<rparr>"

definition cutCtx :: ctx where
  "cutCtx = (newSystem RealCtx)
     \<lparr>poleStates := cutStore, systemState := (baseline RealCtx)\<lparr>status := NORMAL\<rparr>\<rparr>"

text \<open>Stores for a chain of three reporting poles: power everywhere, and a cut between
  Pole2 and Pole3.\<close>

definition liveStore :: "string \<rightharpoonup> jsobj" where
  "liveStore = [''Pole1'' \<mapsto> snapshot ''HIGH'' ''HIGH'', ''Pole2'' \<mapsto> snapshot ''HIGH'' ''HIGH'',
                ''Pole3'' \<mapsto> snapshot ''HIGH'' ''HIGH'']"

definition cutStore23 :: "string \<rightharpoonup> jsobj" where
  "cutStore23 = liveStore(''Pole3'' \<mapsto> snapshot ''LOW'' ''LOW'')"

text \<open>The real context after the engine has seen the cut at clock value 100.\<close>

definition isolated23 :: ctx where
  "isolated23 = engineRun (envAt 100, cutStore23) (newSystem RealCtx)"

text \<open>Request bodies: a Pole4 publish with fields of its own, a publish whose
  \<open>isSimulation\<close> is the number 1, a request naming \<open>Pole9\<close>.\<close>

definition pole4Body :: jsobj where
  "pole4Body = [''poleId'' \<mapsto> JStr ''Pole4'', ''outgoingCurrent'' \<mapsto> JStr ''HIGH'',
                ''nodeState'' \<mapsto> JStr ''BANANA'']"

definition numberFlagBody :: jsobj where
  "numberFlagBody = [''poleId'' \<mapsto> JStr ''Pole2'', ''isSimulation'' \<mapsto> JNum 1,
                     ''incomingCurrent'' \<mapsto> JStr ''HIGH'']"

definition unknownPoleRequest :: jsobj where
  "unknownPoleRequest = [''poleId'' \<mapsto> JStr ''Pole9'', ''incomingCurrent'' \<mapsto> JStr ''HIGH'',
                         ''action'' \<mapsto> JStr ''DISABLE_OUTGOING_RELAY'']"

text \<open>The real context with no publish so far and one admin command queued; the real
  context with two poles last seen at 1000 and 2000 and a fault recorded.\<close>

definition adminQueuedCtx :: ctx where
  "adminQueuedCtx =
     queueCommand (envAt 1000) ''Pole2'' (JStr ''ENABLE_OUTGOING_RELAY'', JStr ''Manual command'')
       (newSystem RealCtx)"

definition staleCtx :: ctx where
  "staleCtx = (newSystem RealCtx)
     \<lparr>poleStates := [''Pole1'' \<mapsto> snapshot ''HIGH'' ''HIGH'', ''Pole2'' \<mapsto> snapshot ''LOW'' ''LOW''],
      lastUpdateTime := zeroTimes(''Pole1'' \<mapsto> 1000, ''Pole2'' \<mapsto> 2000),
      systemState := (baseline RealCtx)\<lparr>status := FAULT, isolatedSegments := [''Pole1-Pole2'']\<rparr>\<rparr>"

text \<open>Readings without and with current, a node in NORMAL, and a node in RECOVERY with its
  outgoing relay on.\<close>

definition lowSample :: sample where
  "lowSample = \<lparr>inVal = 0, outVal = 0, rmsVoltage = Some 0, rmsCurrent = Some 0\<rparr>"

definition highSample :: sample where
  "highSample = \<lparr>inVal = 800, outVal = 800, rmsVoltage = Some 230, rmsCurrent = Some 5\<rparr>"

definition normalNode :: node where
  "normalNode =
     \<lparr>currentState = STATE_NORMAL, incomingCurrentHigh = True, outgoingCurrentHigh = True,
      relayInEnabled = True, relayOutEnabled = True, measuredVoltage = 230, measuredCurrent = 5,
      faultFlag = False, upstreamOutHigh = False, upstreamDataValid = False,
      faultStartTime = 0, recoveryStart = 0, buzzer = False\<rparr>"

definition recoveringNode :: node where
  "recoveringNode =
     \<lparr>currentState = STATE_RECOVERY, incomingCurrentHigh = True, outgoingCurrentHigh = True,
      relayInEnabled = True, relayOutEnabled = True, measuredVoltage = 230, measuredCurrent = 5,
      faultFlag = True, upstreamOutHigh = True, upstreamDataValid = True,
      faultStartTime = 0, recoveryStart = 4000, buzzer = False\<rparr>"

text \<open>The first node after a tick without incoming current at 1000, a polled ENABLE
  command at 1100 and two ticks with current at 1200 and 4100.\<close>

definition staleTimerNode :: node where
  "staleTimerNode =
     controlTick 1 (4100, highSample)
       (controlTick 1 (1200, highSample)
          (pollCommands 1 1100 (200, ''[{action:ENABLE_OUTGOING_RELAY}]'')
             (controlTick 1 (1000, lowSample) normalNode)))"

text \<open>Two cuts at once, behind Pole1 and behind Pole2; then power back at Pole2; then power
  back at Pole3 as well.\<close>

definition twoCutsStore :: "string \<rightharpoonup> jsobj" where
  "twoCutsStore = [''Pole1'' \<mapsto> snapshot ''HIGH'' ''HIGH'', ''Pole2'' \<mapsto> snapshot ''LOW'' ''HIGH'',
                   ''Pole3'' \<mapsto> snapshot ''LOW'' ''LOW'']"

definition oneCutStore :: "string \<rightharpoonup> jsobj" where
  "oneCutStore = twoCutsStore(''Pole2'' \<mapsto> snapshot ''HIGH'' ''HIGH'')"

definition twoCuts :: ctx where
  "twoCuts = engineRun (envAt 100, twoCutsStore) (newSystem RealCtx)"

text \<open>Pole3 has power again while the cut behind Pole1 remains.\<close>

definition backCutStore :: "string \<rightharpoonup> jsobj" where
  "backCutStore = twoCutsStore(''Pole3'' \<mapsto> snapshot ''HIGH'' ''HIGH'')"

section \<open>Basic facts\<close>

lemma envAt_sel [simp]: "nowMs (envAt t) = t" "isoNow (envAt t) = ''t''"
  by (simp_all add: envAt_def)

lemma pole_indices: "[1 ..< length POLE_ORDER] = [1, 2, 3]"
  by (simp add: POLE_ORDER_def upt_rec)

lemma pole_at:
  "POLE_ORDER ! 0 = ''Pole1''" "POLE_ORDER ! 1 = ''Pole2''"
  "POLE_ORDER ! 2 = ''Pole3''" "POLE_ORDER ! 3 = ''Pole4''"
  by (simp_all add: POLE_ORDER_def)

lemma checkPair_unfold:
  "checkPair queue env 1 st = checkSegment queue env ''Pole1'' ''Pole2'' st"
  "checkPair queue env 2 st = checkSegment queue env ''Pole2'' ''Pole3'' st"
  "checkPair queue env 3 st = checkSegment queue env ''Pole3'' ''Pole4'' st"
  by (simp_all add: checkPair_def POLE_ORDER_def)

lemma loop_unfold:
  "foldl (\<lambda>st i. checkPair (queueCommand env) env i st) st [1 ..< length POLE_ORDER] = sweep env st"
  unfolding pole_indices by (simp only: foldl.simps checkPair_unfold sweep_def)

lemma runFaultEngine_sweep:
  "runFaultEngine (queueCommand env) env c =
     (if gridLow (poleStates c) then
        (if status (systemState c) \<noteq> GRID_DOWN
         then (emit EvGridDown
                 (c\<lparr>systemState := (systemState c)\<lparr>status := GRID_DOWN,
                        faultType := Some ''GRID_DOWN'', faultLocation := Some ''Grid'',
                        lastFaultTime := Some (isoNow env), recoveryStartTime := None\<rparr>\<rparr>), True)
         else (c, False))
      else if gridHigh (poleStates c) \<and> status (systemState c) = GRID_DOWN then
        (emit EvNormal
           (c\<lparr>systemState := (systemState c)\<lparr>status := NORMAL, faultType := None,
                  faultLocation := None, lastRecoveryTime := Some (isoNow env),
                  isolatedSegments := []\<rparr>\<rparr>), True)
      else sweep env (c, False))"
  unfolding runFaultEngine_def loop_unfold by (simp only: Let_def)

lemma poleStates_emit [simp]: "poleStates (emit e c) = poleStates c"
  by (simp add: emit_def)

lemma poleStates_queueCommand [simp]: "poleStates (queueCommand env p cmd c) = poleStates c"
  by (simp add: queueCommand_def Let_def)

lemma poleStates_faultRule [simp]:
  "poleStates (fst (faultRule (queueCommand env) env u d st)) = poleStates (fst st)"
  by (simp add: faultRule_def Let_def)

lemma poleStates_recoveryRule [simp]:
  "poleStates (fst (recoveryRule (queueCommand env) env u d st)) = poleStates (fst st)"
  by (simp add: recoveryRule_def Let_def)

lemma poleStates_checkSegment [simp]:
  "poleStates (fst (checkSegment (queueCommand env) env u d st)) = poleStates (fst st)"
  by (simp add: checkSegment_def Let_def split: option.splits)

lemma poleStates_sweep [simp]: "poleStates (fst (sweep env st)) = poleStates (fst st)"
  by (simp add: sweep_def)

lemma poleStates_runFaultEngine [simp]:
  "poleStates (fst (runFaultEngine (queueCommand env) env c)) = poleStates c"
  by (simp add: runFaultEngine_sweep)

lemma poleStates_updatePole:
  "poleStates (updatePole env p d c) = (poleStates c)(p \<mapsto> d)"
  by (simp add: updatePole_def Let_def)

lemma lastUpdateTime_emit [simp]: "lastUpdateTime (emit e c) = lastUpdateTime c"
  by (simp add: emit_def)

lemma lastUpdateTime_queueCommand [simp]: "lastUpdateTime (queueCommand env p cmd c) = lastUpdateTime c"
  by (simp add: queueCommand_def Let_def)

lemma lastUpdateTime_faultRule [simp]:
  "lastUpdateTime (fst (faultRule (queueCommand env) env u d st)) = lastUpdateTime (fst st)"
  by (simp add: faultRule_def Let_def)

lemma lastUpdateTime_recoveryRule [simp]:
  "lastUpdateTime (fst (recoveryRule (queueCommand env) env u d st)) = lastUpdateTime (fst st)"
  by (simp add: recoveryRule_def Let_def)

lemma lastUpdateTime_checkSegment [simp]:
  "lastUpdateTime (fst (checkSegment (queueCommand env) env u d st)) = lastUpdateTime (fst st)"
  by (simp add: checkSegment_def Let_def split: option.splits)

lemma lastUpdateTime_runFaultEngine [simp]:
  "lastUpdateTime (fst (runFaultEngine (queueCommand env) env c)) = lastUpdateTime c"
  by (simp add: runFaultEngine_sweep sweep_def)

lemma lastUpdateTime_updatePole:
  "lastUpdateTime (updatePole env p d c) = (lastUpdateTime c)(p \<mapsto> nowMs env)"
  by (simp add: updatePole_def Let_def)

lemma pendingCommands_emit [simp]: "pendingCommands (emit e c) = pendingCommands c"
  by (simp add: emit_def)

lemma ensureManagerIO_store:
  "poleStates (RealSystem (ensureManagerIO appIo a)) = poleStates (RealSystem a)"
  "pendingCommands (RealSystem (ensureManagerIO appIo a)) = pendingCommands (RealSystem a)"
  "lastUpdateTime (RealSystem (ensureManagerIO appIo a)) = lastUpdateTime (RealSystem a)"
  "systemState (RealSystem (ensureManagerIO appIo a)) = systemState (RealSystem a)"
  "poleStates (SimSystem (ensureManagerIO appIo a)) = poleStates (SimSystem a)"
  "pendingCommands (SimSystem (ensureManagerIO appIo a)) = pendingCommands (SimSystem a)"
  "lastUpdateTime (SimSystem (ensureManagerIO appIo a)) = lastUpdateTime (SimSystem a)"
  "systemState (SimSystem (ensureManagerIO appIo a)) = systemState (SimSystem a)"
  "systemMode (ensureManagerIO appIo a) = systemMode a"
  by (simp_all add: ensureManagerIO_def attachIO_def)

lemma gridLow_iff:
  "gridLow store \<longleftrightarrow> (\<exists>p1. store ''Pole1'' = Some p1 \<and> getProp p1 ''incomingCurrent'' = JStr ''LOW'')"
  by (auto simp: gridLow_def split: option.splits)

lemma managerOf_onManager: "managerOf body (onManager body f a) = f (managerOf body a)"
  by (simp add: managerOf_def onManager_def)

lemma systemMode_ensureManagerIO: "systemMode (ensureManagerIO appIo a) = systemMode a"
  by (simp add: ensureManagerIO_def)

lemma pendingCommands_queueCommand:
  "pendingCommands (queueCommand env p cmd c) p =
     Some ((case pendingCommands c p of None \<Rightarrow> [] | Some xs \<Rightarrow> xs) @
           [\<lparr>action = fst cmd, reason = snd cmd, idTime = nowMs env, timestamp = isoNow env,
             cmdStatus = ''PENDING''\<rparr>])"
  by (simp add: queueCommand_def Let_def)

section \<open>Grid-down precedence\<close>

text \<open>
  C2. When the first node's snapshot exists and reports incoming current LOW, a run of the
  fault engine sets the status to GRID_DOWN, changes the state and emits the grid-down
  event only if the status was not GRID_DOWN already, and returns before looking at any
  adjacent pair: the isolated segments and the command queues are what they were, whatever
  the other snapshots say.
\<close>

theorem C2_grid_down_precedence:
  assumes "poleStates c ''Pole1'' = Some p1"
      and "getProp p1 ''incomingCurrent'' = JStr ''LOW''"
  shows "runFaultEngine queue env c =
           (if status (systemState c) = GRID_DOWN then (c, False)
            else (emit EvGridDown
                    (c\<lparr>systemState := (systemState c)\<lparr>status := GRID_DOWN,
                          faultType := Some ''GRID_DOWN'', faultLocation := Some ''Grid'',
                          lastFaultTime := Some (isoNow env), recoveryStartTime := None\<rparr>\<rparr>), True))
         \<and> status (systemState (fst (runFaultEngine queue env c))) = GRID_DOWN
         \<and> isolatedSegments (systemState (fst (runFaultEngine queue env c)))
             = isolatedSegments (systemState c)
         \<and> pendingCommands (fst (runFaultEngine queue env c)) = pendingCommands c"
proof -
  have "gridLow (poleStates c)" using assms by (simp add: gridLow_iff)
  then show ?thesis by (simp add: runFaultEngine_def emit_def Let_def)
qed

theorem C2_grid_down_precedence_witness:
  "status (systemState (fst (runFaultEngine (queueCommand (envAt 5)) (envAt 5) gridDownCtx))) = GRID_DOWN
   \<and> isolatedSegments (systemState (fst (runFaultEngine (queueCommand (envAt 5)) (envAt 5) gridDownCtx))) = []
   \<and> pendingCommands (fst (runFaultEngine (queueCommand (envAt 5)) (envAt 5) gridDownCtx)) = emptyQueues"
proof -
  have h1: "poleStates gridDownCtx ''Pole1'' = Some (snapshot ''LOW'' ''HIGH'')"
    by (simp add: gridDownCtx_def)
  have h2: "getProp (snapshot ''LOW'' ''HIGH'') ''incomingCurrent'' = JStr ''LOW''"
    by (simp add: snapshot_def getProp_def)
  have h3: "isolatedSegments (systemState gridDownCtx) = []"
    and h4: "pendingCommands gridDownCtx = emptyQueues"
    by (simp_all add: gridDownCtx_def newSystem_def baseline_def)
  note t = C2_grid_down_precedence [OF h1 h2, of "queueCommand (envAt 5)" "envAt 5"]
  from t h3 h4 show ?thesis by (elim conjE) (simp only: simp_thms)
qed

section \<open>The request body is spread over the sanitized fields\<close>



section \<open>Mode gating\<close>

text \<open>
  What the gate rejects: a publish while the mode is IDLE, a publish whose \<open>isSimulation\<close>
  is the boolean \<open>true\<close> while the mode is REAL, and a publish whose \<open>isSimulation\<close> is
  anything else while the mode is SIM. Such a publish is answered 403 and the snapshot
  store, the command queues, the last-seen table and the system state of both contexts
  are left as they were.
\<close>

lemma gate_rejects:
  assumes "systemMode a = IDLE \<or> (systemMode a = REAL \<and> isSimPayload body) \<or>
           (systemMode a = SIM \<and> \<not> isSimPayload body)"
  shows "(\<exists>msg. fst (postState env appIo body a) = ErrorResponse 403 msg) \<and>
         poleStates (RealSystem (snd (postState env appIo body a))) = poleStates (RealSystem a) \<and>
         pendingCommands (RealSystem (snd (postState env appIo body a))) = pendingCommands (RealSystem a) \<and>
         lastUpdateTime (RealSystem (snd (postState env appIo body a))) = lastUpdateTime (RealSystem a) \<and>
         systemState (RealSystem (snd (postState env appIo body a))) = systemState (RealSystem a) \<and>
         poleStates (SimSystem (snd (postState env appIo body a))) = poleStates (SimSystem a) \<and>
         pendingCommands (SimSystem (snd (postState env appIo body a))) = pendingCommands (SimSystem a) \<and>
         lastUpdateTime (SimSystem (snd (postState env appIo body a))) = lastUpdateTime (SimSystem a) \<and>
         systemState (SimSystem (snd (postState env appIo body a))) = systemState (SimSystem a)"
proof -
  from assms obtain msg where m: "modeError (systemMode a) body = Some (ErrorResponse 403 msg)"
    by (auto simp: modeError_def)
  then have "postState env appIo body a = (ErrorResponse 403 msg, ensureManagerIO appIo a)"
    by (simp add: postState_def Let_def ensureManagerIO_store)
  then show ?thesis by (simp add: ensureManagerIO_store)
qed



section \<open>Unknown pole ids\<close>



text \<open>At a name the queue table only inherits, the admin command is not validated either;
  \<open>queueCommand\<close> raises, the answer is 500 and nothing is queued.\<close>

lemma inherited_name_raises:
  "fst (postCommand (envAt 9) False
          [''poleId'' \<mapsto> JStr ''constructor'', ''action'' \<mapsto> JStr ''DISABLE_OUTGOING_RELAY'']
          realArbiter) = ErrorResponse 500 ''TypeError'' \<and>
   pendingCommands (RealSystem (snd (postCommand (envAt 9) False
          [''poleId'' \<mapsto> JStr ''constructor'', ''action'' \<mapsto> JStr ''DISABLE_OUTGOING_RELAY'']
          realArbiter))) = emptyQueues"
  by (simp add: postCommand_def ensureManagerIO_def realArbiter_def modeError_def isSimPayload_def
        getProp_def propertyKey_def pushThrows_def inheritedName_def newSystem_def emptyQueues_def
        Let_def)

section \<open>The staleness sweep\<close>

lemma staleLoop_Nil [simp]: "staleLoop now [] acc = acc"
  by (simp add: staleLoop_def)

lemma staleLoop_Cons [simp]: "staleLoop now (p # ps) acc = staleLoop now ps (staleStep now p acc)"
  by (simp add: staleLoop_def)

lemma staleStep_cases:
  "staleStep now p (c, a, s) =
     (if expired now c p \<and> poleStates c p \<noteq> None
      then (c\<lparr>poleStates := (poleStates c)(p := None),
               lastUpdateTime := (lastUpdateTime c)(p \<mapsto> 0)\<rparr>, a, True)
      else (c, a \<or> fresh now c p, s))"
  by (auto simp: staleStep_def expired_def fresh_def Let_def split: option.splits)

lemma expired_upd:
  "q \<noteq> p \<Longrightarrow> expired now (c\<lparr>poleStates := m, lastUpdateTime := (lastUpdateTime c)(p \<mapsto> v)\<rparr>) q
     = expired now c q"
  by (simp add: expired_def)

lemma fresh_upd:
  "q \<noteq> p \<Longrightarrow> fresh now (c\<lparr>poleStates := m, lastUpdateTime := (lastUpdateTime c)(p \<mapsto> v)\<rparr>) q
     = fresh now c q"
  by (simp add: fresh_def)

lemma staleLoop_result:
  "distinct ps \<Longrightarrow>
   \<exists>P L. staleLoop now ps (c, a, s) =
     (c\<lparr>poleStates := P, lastUpdateTime := L\<rparr>,
      a \<or> (\<exists>q \<in> set ps. fresh now c q),
      s \<or> (\<exists>q \<in> set ps. expired now c q \<and> poleStates c q \<noteq> None)) \<and>
     (\<forall>q. P q = (if q \<in> set ps \<and> expired now c q then None else poleStates c q)) \<and>
     (\<forall>q. L q = (if q \<in> set ps \<and> expired now c q \<and> poleStates c q \<noteq> None
                  then Some 0 else lastUpdateTime c q))"
proof (induction ps arbitrary: c a s)
  case Nil
  have "c = c\<lparr>poleStates := poleStates c, lastUpdateTime := lastUpdateTime c\<rparr>" by simp
  then show ?case by (intro exI [of _ "poleStates c"] exI [of _ "lastUpdateTime c"]) simp
next
  case (Cons p ps)
  then have d: "distinct ps" and np: "p \<notin> set ps" by simp_all
  have nf: "expired now c p \<Longrightarrow> \<not> fresh now c p"
    by (auto simp: expired_def fresh_def split: option.splits)
  show ?case
  proof (cases "expired now c p \<and> poleStates c p \<noteq> None")
    case True
    define c1 where "c1 = c\<lparr>poleStates := (poleStates c)(p := None),
                             lastUpdateTime := (lastUpdateTime c)(p \<mapsto> 0)\<rparr>"
    have e: "\<And>q. expired now c1 q = (q \<noteq> p \<and> expired now c q)"
      and f: "\<And>q. fresh now c1 q = (q \<noteq> p \<and> fresh now c q)"
      and g: "\<And>q. poleStates c1 q = (if q = p then None else poleStates c q)"
      and h: "\<And>q. lastUpdateTime c1 q = (if q = p then Some 0 else lastUpdateTime c q)"
      by (auto simp: expired_def fresh_def c1_def)
    have st: "staleLoop now (p # ps) (c, a, s) = staleLoop now ps (c1, a, True)"
      using True by (simp add: staleStep_cases c1_def)
    from Cons.IH [OF d, of c1 a True] obtain P L where
      r: "staleLoop now ps (c1, a, True) =
            (c1\<lparr>poleStates := P, lastUpdateTime := L\<rparr>,
             a \<or> (\<exists>q \<in> set ps. fresh now c1 q),
             True \<or> (\<exists>q \<in> set ps. expired now c1 q \<and> poleStates c1 q \<noteq> None))"
      and P: "\<And>q. P q = (if q \<in> set ps \<and> expired now c1 q then None else poleStates c1 q)"
      and L: "\<And>q. L q = (if q \<in> set ps \<and> expired now c1 q \<and> poleStates c1 q \<noteq> None
                  then Some 0 else lastUpdateTime c1 q)"
      by blast
    have c1u: "c1\<lparr>poleStates := P, lastUpdateTime := L\<rparr> = c\<lparr>poleStates := P, lastUpdateTime := L\<rparr>"
      by (simp add: c1_def)
    have fr: "(\<exists>q \<in> set ps. fresh now c1 q) = (\<exists>q \<in> set (p # ps). fresh now c q)"
      using nf True np by (auto simp: f)
    have P': "\<And>q. P q = (if q \<in> set (p # ps) \<and> expired now c q then None else poleStates c q)"
      using True np by (auto simp: P e g)
    have L': "\<And>q. L q = (if q \<in> set (p # ps) \<and> expired now c q \<and> poleStates c q \<noteq> None
                  then Some 0 else lastUpdateTime c q)"
      using True np by (auto simp: L e g h)
    have sw: "(True \<or> (\<exists>q \<in> set ps. expired now c1 q \<and> poleStates c1 q \<noteq> None)) =
              (s \<or> (\<exists>q \<in> set (p # ps). expired now c q \<and> poleStates c q \<noteq> None))"
      using True by simp
    have "staleLoop now (p # ps) (c, a, s) =
            (c\<lparr>poleStates := P, lastUpdateTime := L\<rparr>,
             a \<or> (\<exists>q \<in> set (p # ps). fresh now c q),
             s \<or> (\<exists>q \<in> set (p # ps). expired now c q \<and> poleStates c q \<noteq> None))"
      by (simp only: st r c1u fr sw)
    then show ?thesis using P' L' by blast
  next
    case False
    have st: "staleLoop now (p # ps) (c, a, s) = staleLoop now ps (c, a \<or> fresh now c p, s)"
      using False by (auto simp: staleStep_cases)
    from Cons.IH [OF d, of c "a \<or> fresh now c p" s] obtain P L where
      r: "staleLoop now ps (c, a \<or> fresh now c p, s) =
            (c\<lparr>poleStates := P, lastUpdateTime := L\<rparr>,
             (a \<or> fresh now c p) \<or> (\<exists>q \<in> set ps. fresh now c q),
             s \<or> (\<exists>q \<in> set ps. expired now c q \<and> poleStates c q \<noteq> None))"
      and P: "\<And>q. P q = (if q \<in> set ps \<and> expired now c q then None else poleStates c q)"
      and L: "\<And>q. L q = (if q \<in> set ps \<and> expired now c q \<and> poleStates c q \<noteq> None
                  then Some 0 else lastUpdateTime c q)"
      by blast
    have P': "\<And>q. P q = (if q \<in> set (p # ps) \<and> expired now c q then None else poleStates c q)"
      using False by (auto simp: P)
    have L': "\<And>q. L q = (if q \<in> set (p # ps) \<and> expired now c q \<and> poleStates c q \<noteq> None
                  then Some 0 else lastUpdateTime c q)"
      using False by (auto simp: L)
    have fl: "((a \<or> fresh now c p) \<or> (\<exists>q \<in> set ps. fresh now c q)) =
              (a \<or> (\<exists>q \<in> set (p # ps). fresh now c q))"
      "(s \<or> (\<exists>q \<in> set ps. expired now c q \<and> poleStates c q \<noteq> None)) =
       (s \<or> (\<exists>q \<in> set (p # ps). expired now c q \<and> poleStates c q \<noteq> None))"
      using False by auto
    have "staleLoop now (p # ps) (c, a, s) =
            (c\<lparr>poleStates := P, lastUpdateTime := L\<rparr>,
             a \<or> (\<exists>q \<in> set (p # ps). fresh now c q),
             s \<or> (\<exists>q \<in> set (p # ps). expired now c q \<and> poleStates c q \<noteq> None))"
      by (simp only: st r fl)
    then show ?thesis using P' L' by blast
  qed
qed


lemma distinct_POLE_ORDER: "distinct POLE_ORDER"
  by (simp add: POLE_ORDER_def)

lemma stalenessCheck_loop:
  "stalenessCheck now c =
     (let r = staleLoop now POLE_ORDER (c, False, False);
          c1 = fst r; anyActive = fst (snd r); anyWentStale = snd (snd r)
      in if anyWentStale \<and> \<not> anyActive then reset c1
         else if anyWentStale \<and> io c1 \<noteq> None
         then foldl (\<lambda>c' poleId. emit (EvPoleUpdate poleId) c') (emit EvUpdate c1) POLE_ORDER
         else c1)"
  by (simp add: stalenessCheck_def staleLoop_def)

lemma emit_all_fields [simp]:
  "systemState (emit e c) = systemState c" "ctype (emit e c) = ctype c"
  "stalenessTimer (emit e c) = stalenessTimer c"
  by (simp_all add: emit_def)

lemma emits_frame:
  "poleStates (foldl (\<lambda>c' poleId. emit (EvPoleUpdate poleId) c') c ps) = poleStates c \<and>
   lastUpdateTime (foldl (\<lambda>c' poleId. emit (EvPoleUpdate poleId) c') c ps) = lastUpdateTime c \<and>
   pendingCommands (foldl (\<lambda>c' poleId. emit (EvPoleUpdate poleId) c') c ps) = pendingCommands c \<and>
   systemState (foldl (\<lambda>c' poleId. emit (EvPoleUpdate poleId) c') c ps) = systemState c"
  by (induction ps arbitrary: c) simp_all

lemma reset_fields:
  "poleStates (reset c) = Map.empty" "pendingCommands (reset c) = emptyQueues"
  "systemState (reset c) = baseline (ctype c)" "lastUpdateTime (reset c) = lastUpdateTime c"
  by (simp_all add: reset_def)

text \<open>What the sweep leaves, in terms of the context it started from.\<close>

lemma stalenessCheck_result:
  "\<exists>P L.
    staleLoop now POLE_ORDER (c, False, False) =
       (c\<lparr>poleStates := P, lastUpdateTime := L\<rparr>,
        (\<exists>q \<in> set POLE_ORDER. fresh now c q),
        (\<exists>q \<in> set POLE_ORDER. expired now c q \<and> poleStates c q \<noteq> None)) \<and>
    (\<forall>q. P q = (if q \<in> set POLE_ORDER \<and> expired now c q then None else poleStates c q)) \<and>
    (\<forall>q. L q = (if q \<in> set POLE_ORDER \<and> expired now c q \<and> poleStates c q \<noteq> None
                  then Some 0 else lastUpdateTime c q))"
  using staleLoop_result [OF distinct_POLE_ORDER, of now c False False] by simp

lemma stalenessCheck_nulls:
  assumes "p \<in> set POLE_ORDER" and "expired now c p"
  shows "poleStates (stalenessCheck now c) p = None"
proof -
  obtain P L where r: "staleLoop now POLE_ORDER (c, False, False) =
       (c\<lparr>poleStates := P, lastUpdateTime := L\<rparr>,
        (\<exists>q \<in> set POLE_ORDER. fresh now c q),
        (\<exists>q \<in> set POLE_ORDER. expired now c q \<and> poleStates c q \<noteq> None))"
    and P: "\<And>q. P q = (if q \<in> set POLE_ORDER \<and> expired now c q then None else poleStates c q)"
    using stalenessCheck_result [of now c] by blast
  have "P p = None" using assms by (simp add: P)
  then show ?thesis
    by (simp add: stalenessCheck_loop r Let_def reset_fields emits_frame)
qed

lemma fresh_stalenessCheck: "fresh now (stalenessCheck now c) q = fresh now c q"
proof -
  obtain P L where r: "staleLoop now POLE_ORDER (c, False, False) =
       (c\<lparr>poleStates := P, lastUpdateTime := L\<rparr>,
        (\<exists>q \<in> set POLE_ORDER. fresh now c q),
        (\<exists>q \<in> set POLE_ORDER. expired now c q \<and> poleStates c q \<noteq> None))"
    and L: "\<And>q. L q = (if q \<in> set POLE_ORDER \<and> expired now c q \<and> poleStates c q \<noteq> None
                  then Some 0 else lastUpdateTime c q)"
    using stalenessCheck_result [of now c] by blast
  have "lastUpdateTime (stalenessCheck now c) = L"
    by (simp add: stalenessCheck_loop r Let_def reset_fields emits_frame)
  then show ?thesis
    by (auto simp: fresh_def L expired_def split: option.splits)
qed

lemma stalenessCheck_resets:
  assumes "\<exists>p \<in> set POLE_ORDER. expired now c p \<and> poleStates c p \<noteq> None"
      and "\<forall>p \<in> set POLE_ORDER. \<not> fresh now c p"
  shows "stalenessCheck now c = reset (fst (staleLoop now POLE_ORDER (c, False, False))) \<and>
         ctype (fst (staleLoop now POLE_ORDER (c, False, False))) = ctype c"
proof -
  obtain P L where r: "staleLoop now POLE_ORDER (c, False, False) =
       (c\<lparr>poleStates := P, lastUpdateTime := L\<rparr>,
        (\<exists>q \<in> set POLE_ORDER. fresh now c q),
        (\<exists>q \<in> set POLE_ORDER. expired now c q \<and> poleStates c q \<noteq> None))"
    using stalenessCheck_result [of now c] by blast
  show ?thesis using assms by (simp add: stalenessCheck_loop r Let_def)
qed

text \<open>
  C6. A staleness sweep nulls the snapshot of each of the four chain nodes whose recorded
  last-seen time is more than 15 s old. If the sweep nulls at least one snapshot and no
  node is fresh afterwards, the same sweep resets the system state to the context's
  baseline (WAITING for the real context, SIM_IDLE for the simulation context) with no
  isolated segment, and empties the command queues and the snapshot store.
\<close>

theorem C6_staleness_sweep:
  "(\<forall>p \<in> set POLE_ORDER. expired now c p \<longrightarrow> poleStates (stalenessCheck now c) p = None) \<and>
   ((\<exists>p \<in> set POLE_ORDER. expired now c p \<and> poleStates c p \<noteq> None) \<and>
    (\<forall>p \<in> set POLE_ORDER. \<not> fresh now (stalenessCheck now c) p) \<longrightarrow>
      systemState (stalenessCheck now c) = baseline (ctype c) \<and>
      status (systemState (stalenessCheck now c))
        = (case ctype c of RealCtx \<Rightarrow> WAITING | SimCtx \<Rightarrow> SIM_IDLE) \<and>
      isolatedSegments (systemState (stalenessCheck now c)) = [] \<and>
      pendingCommands (stalenessCheck now c) = emptyQueues \<and>
      poleStates (stalenessCheck now c) = Map.empty)"
proof (intro conjI ballI impI)
  fix p assume "p \<in> set POLE_ORDER" "expired now c p"
  then show "poleStates (stalenessCheck now c) p = None" by (rule stalenessCheck_nulls)
next
  assume a: "(\<exists>p \<in> set POLE_ORDER. expired now c p \<and> poleStates c p \<noteq> None) \<and>
             (\<forall>p \<in> set POLE_ORDER. \<not> fresh now (stalenessCheck now c) p)"
  then have "\<forall>p \<in> set POLE_ORDER. \<not> fresh now c p" by (simp add: fresh_stalenessCheck)
  with a have r: "stalenessCheck now c = reset (fst (staleLoop now POLE_ORDER (c, False, False)))"
    and t: "ctype (fst (staleLoop now POLE_ORDER (c, False, False))) = ctype c"
    using stalenessCheck_resets [of now c] by blast+
  show "systemState (stalenessCheck now c) = baseline (ctype c)"
    and "status (systemState (stalenessCheck now c))
        = (case ctype c of RealCtx \<Rightarrow> WAITING | SimCtx \<Rightarrow> SIM_IDLE)"
    and "isolatedSegments (systemState (stalenessCheck now c)) = []"
    and "pendingCommands (stalenessCheck now c) = emptyQueues"
    and "poleStates (stalenessCheck now c) = Map.empty"
    by (simp_all add: r reset_fields t baseline_def)
qed

lemma expired_staleCtx:
  "expired 20000 staleCtx ''Pole1''" "expired 20000 staleCtx ''Pole2''"
  "poleStates staleCtx ''Pole1'' \<noteq> None"
  "\<not> fresh 20000 staleCtx ''Pole1''" "\<not> fresh 20000 staleCtx ''Pole2''"
  "\<not> fresh 20000 staleCtx ''Pole3''" "\<not> fresh 20000 staleCtx ''Pole4''"
  by (simp_all add: expired_def fresh_def staleCtx_def newSystem_def zeroTimes_def STALE_TIMEOUT_MS_def)

theorem C6_staleness_sweep_witness:
  "poleStates (stalenessCheck 20000 staleCtx) ''Pole1'' = None \<and>
   status (systemState staleCtx) = FAULT \<and>
   status (systemState (stalenessCheck 20000 staleCtx)) = WAITING \<and>
   isolatedSegments (systemState (stalenessCheck 20000 staleCtx)) = [] \<and>
   pendingCommands (stalenessCheck 20000 staleCtx) = emptyQueues"
proof -
  have p: "''Pole1'' \<in> set POLE_ORDER" by (simp add: POLE_ORDER_def)
  have h1: "\<exists>p \<in> set POLE_ORDER. expired 20000 staleCtx p \<and> poleStates staleCtx p \<noteq> None"
    using p expired_staleCtx(1,3) by blast
  have h2: "\<forall>p \<in> set POLE_ORDER. \<not> fresh 20000 (stalenessCheck 20000 staleCtx) p"
    using expired_staleCtx(4-7) by (simp add: fresh_stalenessCheck POLE_ORDER_def)
  have t: "ctype staleCtx = RealCtx" "status (systemState staleCtx) = FAULT"
    by (simp_all add: staleCtx_def newSystem_def baseline_def)
  note th = C6_staleness_sweep [of 20000 staleCtx]
  from th p expired_staleCtx(1) have a: "poleStates (stalenessCheck 20000 staleCtx) ''Pole1'' = None"
    by blast
  from th h1 h2 have
    "status (systemState (stalenessCheck 20000 staleCtx))
        = (case ctype staleCtx of RealCtx \<Rightarrow> WAITING | SimCtx \<Rightarrow> SIM_IDLE)"
    "isolatedSegments (systemState (stalenessCheck 20000 staleCtx)) = []"
    "pendingCommands (stalenessCheck 20000 staleCtx) = emptyQueues"
    by blast+
  with a t show ?thesis by simp
qed

text \<open>
  Without a snapshot nulled in the sweep there is no reset: on a context where no node
  ever published and an admin command is queued, no node is fresh after the sweep and the
  queue still holds the command.
\<close>

theorem C6_silent_context_not_reset:
  "\<not> (\<exists>p \<in> set POLE_ORDER. fresh 20000 (stalenessCheck 20000 adminQueuedCtx) p) \<and>
   pendingCommands (stalenessCheck 20000 adminQueuedCtx) \<noteq> emptyQueues \<and>
   map action (the (pendingCommands (stalenessCheck 20000 adminQueuedCtx) ''Pole2''))
     = [JStr ''ENABLE_OUTGOING_RELAY'']"
proof -
  have f: "\<And>p. \<not> fresh 20000 adminQueuedCtx p"
    by (simp add: fresh_def adminQueuedCtx_def newSystem_def zeroTimes_def)
  have e: "\<And>p. \<not> expired 20000 adminQueuedCtx p"
    by (simp add: expired_def adminQueuedCtx_def newSystem_def zeroTimes_def)
  obtain P L where r: "staleLoop 20000 POLE_ORDER (adminQueuedCtx, False, False) =
       (adminQueuedCtx\<lparr>poleStates := P, lastUpdateTime := L\<rparr>,
        (\<exists>q \<in> set POLE_ORDER. fresh 20000 adminQueuedCtx q),
        (\<exists>q \<in> set POLE_ORDER. expired 20000 adminQueuedCtx q \<and> poleStates adminQueuedCtx q \<noteq> None))"
    using stalenessCheck_result [of 20000 adminQueuedCtx] by blast
  have q: "pendingCommands (stalenessCheck 20000 adminQueuedCtx) = pendingCommands adminQueuedCtx"
    by (simp add: stalenessCheck_loop r Let_def e f)
  have v: "map action (the (pendingCommands adminQueuedCtx ''Pole2'')) = [JStr ''ENABLE_OUTGOING_RELAY'']"
    by (simp add: adminQueuedCtx_def queueCommand_def newSystem_def emptyQueues_def)
  have n: "pendingCommands adminQueuedCtx \<noteq> emptyQueues"
  proof
    assume "pendingCommands adminQueuedCtx = emptyQueues"
    then have "map action (the (emptyQueues ''Pole2'')) = [JStr ''ENABLE_OUTGOING_RELAY'']"
      using v by simp
    then show False by (simp add: emptyQueues_def)
  qed
  show ?thesis using f q v n by (simp add: fresh_stalenessCheck)
qed

section \<open>Entering FAULT_DOWNSTREAM\<close>

lemma disable_in_body:
  assumes "sublist ''DISABLE_OUTGOING_RELAY'' body"
  shows "sublist ''DISABLE'' body"
proof -
  have "sublist ''DISABLE'' (''DISABLE'' @ ''_OUTGOING_RELAY'')" by (rule sublist_append_rightI)
  then have "sublist ''DISABLE'' ''DISABLE_OUTGOING_RELAY''" by simp
  then show ?thesis using assms by (rule sublist_order.order.trans)
qed

lemma tick_enters_fault_downstream:
  assumes "\<not> IS_TERMINAL poleNumber"
  shows "(currentState (controlTick poleNumber tick n) = STATE_FAULT_DOWNSTREAM \<and>
          currentState n \<noteq> STATE_FAULT_DOWNSTREAM) =
         (currentState n = STATE_RECOVERY \<and>
          (incomingLow tick \<or> \<not> outVal (snd tick) > CURRENT_THRESHOLD \<and> relayOutEnabled n))"
  using assms
  by (cases "currentState n")
     (auto simp: controlTick_def runStateMachine_def readVoltageCurrent_def readCurrentSensors_def
        handleNormalState_def handleGridDownState_def handleFaultUpstreamState_def
        handleFaultDownstreamState_def handleRecoveryState_def debounce_def overCheck_def
        enableRelay_def incomingLow_def Let_def
        split: if_splits)

lemma poll_enters_fault_downstream:
  assumes "currentState (pollCommands poleNumber ms resp n) = STATE_FAULT_DOWNSTREAM"
      and "currentState n \<noteq> STATE_FAULT_DOWNSTREAM"
  shows "fst resp = 200 \<and> sublist ''DISABLE_OUTGOING_RELAY'' (snd resp) \<and>
         \<not> relayOutEnabled (pollCommands poleNumber ms resp n)"
  using assms
  by (auto simp: pollCommands_def enableRelay_def Let_def dest: disable_in_body split: if_splits)

lemma poll_disable:
  assumes "\<not> IS_TERMINAL poleNumber" and "sublist ''DISABLE_OUTGOING_RELAY'' body"
  shows "currentState (pollCommands poleNumber ms (200, body) n) = STATE_FAULT_DOWNSTREAM \<and>
         \<not> relayOutEnabled (pollCommands poleNumber ms (200, body) n)"
  using assms disable_in_body [OF assms(2)]
  by (simp add: pollCommands_def enableRelay_def Let_def)

text \<open>
  C8. On a non-terminal node, a polled response with status 200 whose body contains the
  text \<open>DISABLE_OUTGOING_RELAY\<close> puts the node in FAULT_DOWNSTREAM with the outgoing relay
  off, and a command poll makes the state FAULT_DOWNSTREAM in no other way. A control tick
  makes the state FAULT_DOWNSTREAM, from another state, exactly when the node is in
  RECOVERY and the readings of the tick fail the stability check: no incoming current, or
  no outgoing current while the outgoing relay is on.
\<close>

theorem C8_fault_downstream_entry:
  assumes "\<not> IS_TERMINAL poleNumber"
  shows "(sublist ''DISABLE_OUTGOING_RELAY'' body \<longrightarrow>
            currentState (pollCommands poleNumber ms (200, body) n) = STATE_FAULT_DOWNSTREAM \<and>
            \<not> relayOutEnabled (pollCommands poleNumber ms (200, body) n)) \<and>
         (currentState (pollCommands poleNumber ms resp n) = STATE_FAULT_DOWNSTREAM \<and>
          currentState n \<noteq> STATE_FAULT_DOWNSTREAM \<longrightarrow>
            fst resp = 200 \<and> sublist ''DISABLE_OUTGOING_RELAY'' (snd resp) \<and>
            \<not> relayOutEnabled (pollCommands poleNumber ms resp n)) \<and>
         ((currentState (controlTick poleNumber tick n) = STATE_FAULT_DOWNSTREAM \<and>
           currentState n \<noteq> STATE_FAULT_DOWNSTREAM) =
          (currentState n = STATE_RECOVERY \<and>
           (incomingLow tick \<or> \<not> outVal (snd tick) > CURRENT_THRESHOLD \<and> relayOutEnabled n)))"
  using poll_disable [OF assms] poll_enters_fault_downstream tick_enters_fault_downstream [OF assms]
  by blast

theorem C8_fault_downstream_entry_witness:
  "currentState (pollCommands 2 7000 (200, ''[{action:DISABLE_OUTGOING_RELAY}]'') recoveringNode)
     = STATE_FAULT_DOWNSTREAM \<and>
   \<not> relayOutEnabled (pollCommands 2 7000 (200, ''[{action:DISABLE_OUTGOING_RELAY}]'') recoveringNode) \<and>
   currentState (controlTick 2 (5000, lowSample) recoveringNode) = STATE_FAULT_DOWNSTREAM \<and>
   currentState (controlTick 2 (5000, highSample) recoveringNode) \<noteq> STATE_FAULT_DOWNSTREAM"
proof -
  have h1: "\<not> IS_TERMINAL 2" by (simp add: IS_TERMINAL_def)
  have h2: "sublist ''DISABLE_OUTGOING_RELAY'' ''[{action:DISABLE_OUTGOING_RELAY}]''"
    by code_simp
  have h3: "currentState recoveringNode = STATE_RECOVERY" "relayOutEnabled recoveringNode"
    by (simp_all add: recoveringNode_def)
  have h4: "incomingLow (5000, lowSample)" "\<not> incomingLow (5000, highSample)"
    "outVal (snd (5000 :: 32 word, highSample)) > CURRENT_THRESHOLD"
    by (simp_all add: incomingLow_def lowSample_def highSample_def CURRENT_THRESHOLD_def)
  note t1 = C8_fault_downstream_entry [OF h1, of "''[{action:DISABLE_OUTGOING_RELAY}]''" 7000
              recoveringNode "(200, [])" "(5000, lowSample)"]
  note t2 = C8_fault_downstream_entry [OF h1, of "[]" 7000 recoveringNode "(200, [])"
              "(5000, highSample)"]
  from t1 t2 h2 h3 h4 show ?thesis by auto
qed

text \<open>
  FAULT_DOWNSTREAM without any DISABLE command: an ENABLE command puts a NORMAL node in
  RECOVERY with the outgoing relay on; a tick without incoming current then takes it to
  FAULT_DOWNSTREAM, the relay still on.
\<close>

theorem C8_recovery_falls_back:
  "currentState normalNode = STATE_NORMAL \<and>
   currentState (pollCommands 2 4000 (200, ''[{action:ENABLE_OUTGOING_RELAY}]'') normalNode)
     = STATE_RECOVERY \<and>
   currentState (controlTick 2 (5000, lowSample)
      (pollCommands 2 4000 (200, ''[{action:ENABLE_OUTGOING_RELAY}]'') normalNode))
     = STATE_FAULT_DOWNSTREAM \<and>
   relayOutEnabled (controlTick 2 (5000, lowSample)
      (pollCommands 2 4000 (200, ''[{action:ENABLE_OUTGOING_RELAY}]'') normalNode))"
proof -
  have a: "sublist ''ENABLE_OUTGOING_RELAY'' ''[{action:ENABLE_OUTGOING_RELAY}]''"
    and b: "\<not> sublist ''DISABLE'' ''[{action:ENABLE_OUTGOING_RELAY}]''"
    and c: "\<not> sublist ''DISABLE_OUTGOING_RELAY'' ''[{action:ENABLE_OUTGOING_RELAY}]''"
    by code_simp+
  have p: "pollCommands 2 4000 (200, ''[{action:ENABLE_OUTGOING_RELAY}]'') normalNode
             = normalNode\<lparr>relayOutEnabled := True, currentState := STATE_RECOVERY, recoveryStart := 4000\<rparr>"
    by (simp add: pollCommands_def a b c IS_TERMINAL_def enableRelay_def)
  show ?thesis
    unfolding p
    by (simp add: controlTick_def runStateMachine_def readVoltageCurrent_def
          readCurrentSensors_def handleRecoveryState_def normalNode_def lowSample_def
          IS_TERMINAL_def CURRENT_THRESHOLD_def Let_def)
qed

section \<open>Debounce of the first node\<close>

lemma runTicks_Nil [simp]: "runTicks pn [] n = n"
  by (simp add: runTicks_def)

lemma runTicks_snoc [simp]: "runTicks pn (ticks @ [t]) n = controlTick pn t (runTicks pn ticks n)"
  by (simp add: runTicks_def)

lemma runTicks_Cons [simp]: "runTicks pn (t # ticks) n = runTicks pn ticks (controlTick pn t n)"
  by (simp add: runTicks_def)

lemma debounce_le: "(DEBOUNCE_MS \<le> w) = (500 \<le> unat w)"
  by (simp add: DEBOUNCE_MS_def word_le_nat_alt)

text \<open>One tick of the first node without incoming current.\<close>

lemma low_tick_normal:
  assumes "pn = 1" and "incomingLow tick" and "currentState n = STATE_NORMAL"
  shows "controlTick pn tick n =
     (let s = (if faultStartTime n = 0 then fst tick else faultStartTime n);
          n0 = n\<lparr>incomingCurrentHigh := False,
                  outgoingCurrentHigh := outVal (snd tick) > CURRENT_THRESHOLD,
                  measuredVoltage := 0, measuredCurrent := 0, faultFlag := False, buzzer := False\<rparr>
      in if 500 \<le> unat (fst tick - s)
         then n0\<lparr>currentState := STATE_GRID_DOWN, faultFlag := True, faultStartTime := 0\<rparr>
         else n0\<lparr>faultStartTime := s\<rparr>)"
  using assms
  by (simp add: controlTick_def runStateMachine_def readVoltageCurrent_def readCurrentSensors_def
        handleNormalState_def debounce_def debounce_le incomingLow_def IS_TERMINAL_def Let_def)

lemma low_tick_grid_down:
  assumes "incomingLow tick" and "currentState n = STATE_GRID_DOWN"
  shows "currentState (controlTick pn tick n) = STATE_GRID_DOWN \<and>
         relayInEnabled (controlTick pn tick n) = relayInEnabled n \<and>
         relayOutEnabled (controlTick pn tick n) = relayOutEnabled n"
  using assms
  by (simp add: controlTick_def runStateMachine_def readVoltageCurrent_def readCurrentSensors_def
        handleGridDownState_def incomingLow_def Let_def)

text \<open>While no tick sees incoming current, the node is in GRID_DOWN or still timing from
  the first tick, and its relays are where they were.\<close>

lemma low_ticks_invariant:
  assumes "pn = 1" and "currentState n = STATE_NORMAL" and "faultStartTime n = 0"
      and "ticks \<noteq> []" and "\<forall>t \<in> set ticks. incomingLow t" and "fst (hd ticks) \<noteq> 0"
  shows "(currentState (runTicks pn ticks n) = STATE_GRID_DOWN \<or>
          currentState (runTicks pn ticks n) = STATE_NORMAL \<and>
          faultStartTime (runTicks pn ticks n) = fst (hd ticks)) \<and>
         relayInEnabled (runTicks pn ticks n) = relayInEnabled n \<and>
         relayOutEnabled (runTicks pn ticks n) = relayOutEnabled n"
  using assms(4-6)
proof (induction ticks rule: rev_induct)
  case Nil
  then show ?case by simp
next
  case (snoc t ticks)
  have lt: "incomingLow t" using snoc.prems by simp
  show ?case
  proof (cases "ticks = []")
    case True
    then show ?thesis
      using snoc.prems assms(2,3) by (simp add: low_tick_normal [OF assms(1) lt] Let_def)
  next
    case False
    then have hd: "hd (ticks @ [t]) = hd ticks" by simp
    have IH: "(currentState (runTicks pn ticks n) = STATE_GRID_DOWN \<or>
          currentState (runTicks pn ticks n) = STATE_NORMAL \<and>
          faultStartTime (runTicks pn ticks n) = fst (hd ticks)) \<and>
         relayInEnabled (runTicks pn ticks n) = relayInEnabled n \<and>
         relayOutEnabled (runTicks pn ticks n) = relayOutEnabled n"
      using snoc.IH [OF False] snoc.prems hd by simp
    from IH show ?thesis
    proof (elim conjE disjE)
      assume "currentState (runTicks pn ticks n) = STATE_GRID_DOWN"
        and "relayInEnabled (runTicks pn ticks n) = relayInEnabled n"
        and "relayOutEnabled (runTicks pn ticks n) = relayOutEnabled n"
      then show ?thesis using low_tick_grid_down [OF lt, of "runTicks pn ticks n" pn] by simp
    next
      assume "currentState (runTicks pn ticks n) = STATE_NORMAL"
        and "faultStartTime (runTicks pn ticks n) = fst (hd ticks)"
        and "relayInEnabled (runTicks pn ticks n) = relayInEnabled n"
        and "relayOutEnabled (runTicks pn ticks n) = relayOutEnabled n"
      then show ?thesis
        using snoc.prems(3) hd by (simp add: low_tick_normal [OF assms(1) lt] Let_def)
    qed
  qed
qed

text \<open>If every tick is less than 500 ms after the first, the node is still timing.\<close>

lemma short_low_ticks:
  assumes "pn = 1" and "currentState n = STATE_NORMAL" and "faultStartTime n = 0"
      and "ticks \<noteq> []" and "\<forall>t \<in> set ticks. incomingLow t" and "fst (hd ticks) \<noteq> 0"
      and "\<forall>t \<in> set ticks. unat (fst t - fst (hd ticks)) < 500"
  shows "currentState (runTicks pn ticks n) = STATE_NORMAL \<and>
         faultStartTime (runTicks pn ticks n) = fst (hd ticks)"
  using assms(4-7)
proof (induction ticks rule: rev_induct)
  case Nil
  then show ?case by simp
next
  case (snoc t ticks)
  have lt: "incomingLow t" using snoc.prems by simp
  show ?case
  proof (cases "ticks = []")
    case True
    then show ?thesis
      using snoc.prems assms(2,3) by (simp add: low_tick_normal [OF assms(1) lt] Let_def)
  next
    case False
    then have hd: "hd (ticks @ [t]) = hd ticks" by simp
    have IH: "currentState (runTicks pn ticks n) = STATE_NORMAL \<and>
              faultStartTime (runTicks pn ticks n) = fst (hd ticks)"
      using snoc.IH [OF False] snoc.prems hd by simp
    have "unat (fst t - fst (hd ticks)) < 500" using snoc.prems(4) hd by simp
    then show ?thesis
      using IH snoc.prems(3) hd by (simp add: low_tick_normal [OF assms(1) lt] Let_def)
  qed
qed

lemma high_tick_normal:
  assumes "pn = 1" and "\<not> incomingLow tick" and "currentState n = STATE_NORMAL"
  shows "currentState (controlTick pn tick n) = STATE_NORMAL \<and>
         faultStartTime (controlTick pn tick n) = 0"
  using assms
  by (simp add: controlTick_def runStateMachine_def readVoltageCurrent_def readCurrentSensors_def
        handleNormalState_def overCheck_def enableRelay_def incomingLow_def Let_def)

text \<open>
  The debounce as it works from an idle timer: the first node is in NORMAL with
  \<open>faultStartTime = 0\<close>, and a run of control ticks reads no incoming current, the first of
  them at a non-zero clock value. If the last tick is at least 500 ms after the first, the
  node is in GRID_DOWN and both relays are as they were. If every tick is at most 499 ms
  after the first and the next tick reads incoming current, the node is in NORMAL before
  and after that tick and the timer is idle again.
\<close>

lemma debounce_from_idle:
  assumes "pn = 1" and "currentState n = STATE_NORMAL" and "faultStartTime n = 0"
      and "ticks \<noteq> []" and "\<forall>t \<in> set ticks. incomingLow t" and "fst (hd ticks) \<noteq> 0"
  shows "(500 \<le> unat (fst (last ticks) - fst (hd ticks)) \<longrightarrow>
            currentState (runTicks pn ticks n) = STATE_GRID_DOWN \<and>
            relayInEnabled (runTicks pn ticks n) = relayInEnabled n \<and>
            relayOutEnabled (runTicks pn ticks n) = relayOutEnabled n) \<and>
         ((\<forall>t \<in> set ticks. unat (fst t - fst (hd ticks)) \<le> 499) \<and> \<not> incomingLow tick \<longrightarrow>
            currentState (runTicks pn ticks n) = STATE_NORMAL \<and>
            currentState (runTicks pn (ticks @ [tick]) n) = STATE_NORMAL \<and>
            faultStartTime (runTicks pn (ticks @ [tick]) n) = 0)"
proof (intro conjI impI)
  assume long: "500 \<le> unat (fst (last ticks) - fst (hd ticks))"
  obtain ts t where tt: "ticks = ts @ [t]" using assms(4) by (metis rev_exhaust)
  have ne: "ts \<noteq> []"
  proof
    assume "ts = []"
    then have "fst (last ticks) - fst (hd ticks) = 0" using tt by simp
    with long show False by simp
  qed
  then have hd: "hd ticks = hd ts" using tt by simp
  have lt: "incomingLow t" using assms(5) tt by simp
  have inv: "(currentState (runTicks pn ts n) = STATE_GRID_DOWN \<or>
          currentState (runTicks pn ts n) = STATE_NORMAL \<and>
          faultStartTime (runTicks pn ts n) = fst (hd ts)) \<and>
         relayInEnabled (runTicks pn ts n) = relayInEnabled n \<and>
         relayOutEnabled (runTicks pn ts n) = relayOutEnabled n"
    using low_ticks_invariant [OF assms(1-3) ne] assms(5,6) tt hd by simp
  have el: "500 \<le> unat (fst t - fst (hd ts))" using long tt hd by simp
  from inv have "currentState (runTicks pn (ts @ [t]) n) = STATE_GRID_DOWN \<and>
            relayInEnabled (runTicks pn (ts @ [t]) n) = relayInEnabled n \<and>
            relayOutEnabled (runTicks pn (ts @ [t]) n) = relayOutEnabled n"
  proof (elim conjE disjE)
    assume "currentState (runTicks pn ts n) = STATE_GRID_DOWN"
      and "relayInEnabled (runTicks pn ts n) = relayInEnabled n"
      and "relayOutEnabled (runTicks pn ts n) = relayOutEnabled n"
    then show ?thesis using low_tick_grid_down [OF lt, of "runTicks pn ts n" pn] by simp
  next
    assume "currentState (runTicks pn ts n) = STATE_NORMAL"
      and "faultStartTime (runTicks pn ts n) = fst (hd ts)"
      and "relayInEnabled (runTicks pn ts n) = relayInEnabled n"
      and "relayOutEnabled (runTicks pn ts n) = relayOutEnabled n"
    then show ?thesis
      using el assms(6) hd by (simp add: low_tick_normal [OF assms(1) lt] Let_def)
  qed
  then show "currentState (runTicks pn ticks n) = STATE_GRID_DOWN"
    and "relayInEnabled (runTicks pn ticks n) = relayInEnabled n"
    and "relayOutEnabled (runTicks pn ticks n) = relayOutEnabled n"
    using tt by simp_all
next
  assume a: "(\<forall>t \<in> set ticks. unat (fst t - fst (hd ticks)) \<le> 499) \<and> \<not> incomingLow tick"
  then have "\<forall>t \<in> set ticks. unat (fst t - fst (hd ticks)) < 500" by auto
  from short_low_ticks [OF assms(1-6) this]
  have s: "currentState (runTicks pn ticks n) = STATE_NORMAL" by simp
  then show "currentState (runTicks pn ticks n) = STATE_NORMAL" .
  from a s high_tick_normal [OF assms(1), of tick "runTicks pn ticks n"]
  show "currentState (runTicks pn (ticks @ [tick]) n) = STATE_NORMAL"
    and "faultStartTime (runTicks pn (ticks @ [tick]) n) = 0"
    by simp_all
qed

text \<open>
  C5. The first node in NORMAL should go to GRID_DOWN only after 500 ms without incoming
  current. The timer \<open>faultStartTime\<close> is cleared by a tick in NORMAL that reads incoming
  current and by the trip itself, and nowhere else; and its value 0 also means that it
  is not running. Two runs of the sketch's own functions from a NORMAL node with the
  timer idle:

  \<^item> a tick without incoming current at 1000 starts the timer; a polled ENABLE command at
    1100 takes the node to RECOVERY, and the ticks at 1200 and 4100, both with current,
    bring it back to NORMAL with the timer still at 1000; the tick at 4200, the first one
    without incoming current, puts the node in GRID_DOWN at once;

  \<^item> ticks without incoming current at 0 and at 500: the first leaves the timer at 0, so
    after 500 ms without incoming current the node is still in NORMAL.
\<close>

theorem C5_debounce_timer_defects:
  "currentState (controlTick 1 (1000, lowSample) normalNode) = STATE_NORMAL \<and>
   currentState staleTimerNode = STATE_NORMAL \<and>
   faultStartTime staleTimerNode = 1000 \<and>
   currentState (controlTick 1 (4200, lowSample) staleTimerNode) = STATE_GRID_DOWN \<and>
   currentState (runTicks 1 [(0, lowSample), (500, lowSample)] normalNode) = STATE_NORMAL"
proof -
  have l: "incomingLow (t, lowSample)" for t
    by (simp add: incomingLow_def lowSample_def CURRENT_THRESHOLD_def)
  have n: "currentState normalNode = STATE_NORMAL" "faultStartTime normalNode = 0"
    by (simp_all add: normalNode_def)
  have a: "sublist ''ENABLE_OUTGOING_RELAY'' ''[{action:ENABLE_OUTGOING_RELAY}]''"
    and b: "\<not> sublist ''DISABLE'' ''[{action:ENABLE_OUTGOING_RELAY}]''"
    and c: "\<not> sublist ''DISABLE_OUTGOING_RELAY'' ''[{action:ENABLE_OUTGOING_RELAY}]''"
    by code_simp+
  have t1: "controlTick 1 (1000, lowSample) normalNode =
              normalNode\<lparr>incomingCurrentHigh := False, outgoingCurrentHigh := False,
                measuredVoltage := 0, measuredCurrent := 0, faultStartTime := 1000\<rparr>"
    by (simp only: low_tick_normal [OF refl l n(1)])
       (simp add: Let_def lowSample_def CURRENT_THRESHOLD_def normalNode_def)
  have t2: "pollCommands 1 1100 (200, ''[{action:ENABLE_OUTGOING_RELAY}]'')
              (controlTick 1 (1000, lowSample) normalNode) =
            normalNode\<lparr>incomingCurrentHigh := False, outgoingCurrentHigh := False,
                measuredVoltage := 0, measuredCurrent := 0, faultStartTime := 1000,
                currentState := STATE_RECOVERY, recoveryStart := 1100\<rparr>"
    unfolding t1 by (simp add: pollCommands_def a b c IS_TERMINAL_def enableRelay_def normalNode_def)
  have s: "staleTimerNode =
            normalNode\<lparr>faultStartTime := 1000, currentState := STATE_NORMAL, recoveryStart := 0\<rparr>"
    unfolding staleTimerNode_def t2
    by (simp add: controlTick_def runStateMachine_def readVoltageCurrent_def
          readCurrentSensors_def handleRecoveryState_def normalNode_def highSample_def
          IS_TERMINAL_def CURRENT_THRESHOLD_def RECOVERY_MS_def enableRelay_def Let_def)
  have s1: "currentState staleTimerNode = STATE_NORMAL" "faultStartTime staleTimerNode = 1000"
    unfolding s by simp_all
  have t3: "currentState (controlTick 1 (4200, lowSample) staleTimerNode) = STATE_GRID_DOWN"
    by (simp add: low_tick_normal [OF refl l s1(1)] s1 Let_def del: One_nat_def)
  have z: "currentState (controlTick 1 (0, lowSample) normalNode) = STATE_NORMAL \<and>
           faultStartTime (controlTick 1 (0, lowSample) normalNode) = 0"
    using n by (simp add: low_tick_normal [OF refl l n(1)] Let_def del: One_nat_def)
  then have t4: "currentState (controlTick 1 (500, lowSample) (controlTick 1 (0, lowSample) normalNode))
               = STATE_NORMAL"
    by (simp add: low_tick_normal [OF refl l] Let_def del: One_nat_def)
  show ?thesis
    using t3 t4 s1 by (simp add: t1 n del: One_nat_def)
qed

section \<open>One pass over a segment\<close>

lemma adjacentPairs_eq:
  "adjacentPairs = [(''Pole1'', ''Pole2''), (''Pole2'', ''Pole3''), (''Pole3'', ''Pole4'')]"
  by (simp add: adjacentPairs_def POLE_ORDER_def)

lemma not_both: "mismatch store u d \<Longrightarrow> \<not> restored store u d"
  by (auto simp: mismatch_def restored_def faultCondition_def recoveryCondition_def
        split: option.splits)

lemma faultRule_fields:
  "systemState (fst (faultRule (queueCommand env) env u d st)) =
     (systemState (fst st))\<lparr>status := FAULT, faultType := Some ''WIRE_CUT'',
        faultLocation := Some (faultSegment u d), lastFaultTime := Some (isoNow env),
        recoveryStartTime := None,
        isolatedSegments := isolatedSegments (systemState (fst st)) @ [faultSegment u d]\<rparr>"
  "pendingCommands (fst (faultRule (queueCommand env) env u d st)) =
     (pendingCommands (fst st))(u \<mapsto> queueOf (fst st) u @ [disableCommand env u d])"
  "snd (faultRule (queueCommand env) env u d st) = True"
  by (simp_all add: faultRule_def queueCommand_def queueOf_def disableCommand_def Let_def emit_def)

lemma recoveryRule_due:
  assumes "RECOVERY_STABLE_MS \<le> nowMs env - timerStart (nowMs env) (systemState (fst st))"
  shows "systemState (fst (recoveryRule (queueCommand env) env u d st)) =
     (let s = systemState (fst st);
          remaining = filter (\<lambda>x. x \<noteq> faultSegment u d) (isolatedSegments s)
      in if remaining = []
         then s\<lparr>isolatedSegments := remaining, status := NORMAL, faultType := None,
                 faultLocation := None, lastRecoveryTime := Some (isoNow env),
                 recoveryStartTime := None\<rparr>
         else s\<lparr>isolatedSegments := remaining, lastRecoveryTime := Some (isoNow env),
                 recoveryStartTime := None\<rparr>)"
    and "pendingCommands (fst (recoveryRule (queueCommand env) env u d st)) =
     (pendingCommands (fst st))(u \<mapsto> queueOf (fst st) u @ [enableCommand env u d])"
    and "snd (recoveryRule (queueCommand env) env u d st) = True"
  using assms
  by (simp_all add: recoveryRule_def queueCommand_def queueOf_def enableCommand_def Let_def
        emit_def timerStart_def)

lemma recoveryRule_not_due:
  assumes "\<not> RECOVERY_STABLE_MS \<le> nowMs env - timerStart (nowMs env) (systemState (fst st))"
  shows "recoveryRule (queueCommand env) env u d st =
     ((fst st)\<lparr>systemState := (systemState (fst st))
         \<lparr>recoveryStartTime := Some (timerStart (nowMs env) (systemState (fst st)))\<rparr>\<rparr>, snd st)"
  using assms by (simp add: recoveryRule_def Let_def timerStart_def)

lemma checkSegment_eq:
  "checkSegment (queueCommand env) env u d st =
     (if mismatch (poleStates (fst st)) u d \<and>
         faultSegment u d \<notin> set (isolatedSegments (systemState (fst st)))
      then faultRule (queueCommand env) env u d st
      else if restored (poleStates (fst st)) u d \<and>
              faultSegment u d \<in> set (isolatedSegments (systemState (fst st)))
      then recoveryRule (queueCommand env) env u d st
      else st)"
  by (auto simp: checkSegment_def mismatch_def restored_def Let_def faultCondition_def
        recoveryCondition_def split: option.splits)


lemma checkSegment_noop:
  assumes "recorded (fst st) (u, d)" and "\<not> recoveryDue (nowMs env) (fst st) (u, d)"
  shows "snd (checkSegment (queueCommand env) env u d st) = snd st"
    and "isolatedSegments (systemState (fst (checkSegment (queueCommand env) env u d st)))
           = isolatedSegments (systemState (fst st))"
    and "pendingCommands (fst (checkSegment (queueCommand env) env u d st))
           = pendingCommands (fst st)"
    and "status (systemState (fst (checkSegment (queueCommand env) env u d st)))
           = status (systemState (fst st))"
  using assms
  by (auto simp: checkSegment_eq recorded_def recoveryDue_def recoveryRule_not_due)

lemma timerStart_fresh:
  "\<not> RECOVERY_STABLE_MS \<le> now - timerStart now s \<Longrightarrow>
   \<not> RECOVERY_STABLE_MS \<le> now - timerStart now (s\<lparr>recoveryStartTime := Some (timerStart now s)\<rparr>)"
  by (auto simp: timerStart_def timerUnset_def RECOVERY_STABLE_MS_def split: option.splits)

lemma timerStart_None [simp]:
  "recoveryStartTime s = None \<Longrightarrow> timerStart now s = now"
  by (simp add: timerStart_def timerUnset_def)

text \<open>A pass over a segment records its mismatch, and a pass over another segment keeps
  the record.\<close>

lemma recorded_after:
  "recorded (fst (checkSegment (queueCommand env) env u d st)) (u, d)"
  by (auto simp: checkSegment_eq recorded_def faultRule_fields recoveryRule_not_due
        dest: not_both)

lemma recorded_kept:
  assumes "recorded (fst st) (u, d)" and "faultSegment u' d' \<noteq> faultSegment u d"
  shows "recorded (fst (checkSegment (queueCommand env) env u' d' st)) (u, d)"
proof (cases "RECOVERY_STABLE_MS \<le> nowMs env - timerStart (nowMs env) (systemState (fst st))")
  case True
  then show ?thesis
    using assms
    by (auto simp: checkSegment_eq recorded_def faultRule_fields recoveryRule_due Let_def
          filter_empty_conv)
next
  case False
  then show ?thesis
    using assms
    by (auto simp: checkSegment_eq recorded_def faultRule_fields recoveryRule_not_due)
qed

text \<open>After a pass over a segment no recovery of it is due at the same clock value, and
  a pass over another segment does not make one due.\<close>

lemma not_due_after:
  "\<not> recoveryDue (nowMs env) (fst (checkSegment (queueCommand env) env u d st)) (u, d)"
proof (cases "RECOVERY_STABLE_MS \<le> nowMs env - timerStart (nowMs env) (systemState (fst st))")
  case True
  then show ?thesis
    by (auto simp: checkSegment_eq recoveryDue_def faultRule_fields recoveryRule_due Let_def
          dest: not_both)
next
  case False
  then show ?thesis
    using timerStart_fresh [OF False]
    by (auto simp: checkSegment_eq recoveryDue_def faultRule_fields recoveryRule_not_due
          dest: not_both)
qed

lemma not_due_kept:
  assumes "\<not> recoveryDue (nowMs env) (fst st) (u, d)"
      and "faultSegment u' d' \<noteq> faultSegment u d"
  shows "\<not> recoveryDue (nowMs env) (fst (checkSegment (queueCommand env) env u' d' st)) (u, d)"
proof (cases "RECOVERY_STABLE_MS \<le> nowMs env - timerStart (nowMs env) (systemState (fst st))")
  case True
  then show ?thesis
    using assms
    by (auto simp: checkSegment_eq recoveryDue_def faultRule_fields recoveryRule_due Let_def
          RECOVERY_STABLE_MS_def)
next
  case False
  then show ?thesis
    using assms timerStart_fresh [OF False]
    by (auto simp: checkSegment_eq recoveryDue_def faultRule_fields recoveryRule_not_due
          RECOVERY_STABLE_MS_def)
qed

lemma status_checkSegment:
  "status (systemState (fst (checkSegment (queueCommand env) env u d st))) = GRID_DOWN
   \<Longrightarrow> status (systemState (fst st)) = GRID_DOWN"
  by (cases "RECOVERY_STABLE_MS \<le> nowMs env - timerStart (nowMs env) (systemState (fst st))")
     (auto simp: checkSegment_eq faultRule_fields recoveryRule_due recoveryRule_not_due Let_def
        split: if_splits)

lemma segments_distinct:
  "faultSegment ''Pole1'' ''Pole2'' \<noteq> faultSegment ''Pole2'' ''Pole3''"
  "faultSegment ''Pole1'' ''Pole2'' \<noteq> faultSegment ''Pole3'' ''Pole4''"
  "faultSegment ''Pole2'' ''Pole3'' \<noteq> faultSegment ''Pole1'' ''Pole2''"
  "faultSegment ''Pole2'' ''Pole3'' \<noteq> faultSegment ''Pole3'' ''Pole4''"
  "faultSegment ''Pole3'' ''Pole4'' \<noteq> faultSegment ''Pole1'' ''Pole2''"
  "faultSegment ''Pole3'' ''Pole4'' \<noteq> faultSegment ''Pole2'' ''Pole3''"
  by (simp_all add: faultSegment_def)

text \<open>After a sweep every pair is recorded and none is due at the sweep's clock value.\<close>

lemma sweep_settles:
  assumes "p \<in> set adjacentPairs"
  shows "recorded (fst (sweep env st)) p \<and> \<not> recoveryDue (nowMs env) (fst (sweep env st)) p"
proof -
  let ?s1 = "checkSegment (queueCommand env) env ''Pole1'' ''Pole2'' st"
  let ?s2 = "checkSegment (queueCommand env) env ''Pole2'' ''Pole3'' ?s1"
  let ?s3 = "checkSegment (queueCommand env) env ''Pole3'' ''Pole4'' ?s2"
  have s: "sweep env st = ?s3" by (simp add: sweep_def)
  from assms consider "p = (''Pole1'', ''Pole2'')" | "p = (''Pole2'', ''Pole3'')"
    | "p = (''Pole3'', ''Pole4'')"
    by (auto simp: adjacentPairs_eq)
  then show ?thesis
  proof cases
    case 1
    have a: "recorded (fst ?s1) (''Pole1'', ''Pole2'')"
      and a': "\<not> recoveryDue (nowMs env) (fst ?s1) (''Pole1'', ''Pole2'')"
      by (rule recorded_after, rule not_due_after)
    have b: "recorded (fst ?s2) (''Pole1'', ''Pole2'')"
      and b': "\<not> recoveryDue (nowMs env) (fst ?s2) (''Pole1'', ''Pole2'')"
      by (rule recorded_kept [OF a segments_distinct(3)],
          rule not_due_kept [OF a' segments_distinct(3)])
    have "recorded (fst ?s3) (''Pole1'', ''Pole2'')"
      and "\<not> recoveryDue (nowMs env) (fst ?s3) (''Pole1'', ''Pole2'')"
      by (rule recorded_kept [OF b segments_distinct(5)],
          rule not_due_kept [OF b' segments_distinct(5)])
    then show ?thesis unfolding s 1 by (rule conjI)
  next
    case 2
    have b: "recorded (fst ?s2) (''Pole2'', ''Pole3'')"
      and b': "\<not> recoveryDue (nowMs env) (fst ?s2) (''Pole2'', ''Pole3'')"
      by (rule recorded_after, rule not_due_after)
    have "recorded (fst ?s3) (''Pole2'', ''Pole3'')"
      and "\<not> recoveryDue (nowMs env) (fst ?s3) (''Pole2'', ''Pole3'')"
      by (rule recorded_kept [OF b segments_distinct(6)],
          rule not_due_kept [OF b' segments_distinct(6)])
    then show ?thesis unfolding s 2 by (rule conjI)
  next
    case 3
    have "recorded (fst ?s3) (''Pole3'', ''Pole4'')"
      and "\<not> recoveryDue (nowMs env) (fst ?s3) (''Pole3'', ''Pole4'')"
      by (rule recorded_after, rule not_due_after)
    then show ?thesis unfolding s 3 by (rule conjI)
  qed
qed

text \<open>A sweep over a context where every pair is recorded and none is due changes neither
  the flag, nor the isolations, nor the queues.\<close>

lemma sweep_quiet:
  assumes "\<forall>p \<in> set adjacentPairs. recorded (fst st) p"
      and "\<forall>p \<in> set adjacentPairs. \<not> recoveryDue (nowMs env) (fst st) p"
  shows "snd (sweep env st) = snd st \<and>
         isolatedSegments (systemState (fst (sweep env st))) = isolatedSegments (systemState (fst st)) \<and>
         pendingCommands (fst (sweep env st)) = pendingCommands (fst st) \<and>
         status (systemState (fst (sweep env st))) = status (systemState (fst st))"
proof -
  let ?s1 = "checkSegment (queueCommand env) env ''Pole1'' ''Pole2'' st"
  let ?s2 = "checkSegment (queueCommand env) env ''Pole2'' ''Pole3'' ?s1"
  have r0: "recorded (fst st) (''Pole1'', ''Pole2'')" "recorded (fst st) (''Pole2'', ''Pole3'')"
    "recorded (fst st) (''Pole3'', ''Pole4'')"
    and d0: "\<not> recoveryDue (nowMs env) (fst st) (''Pole1'', ''Pole2'')"
    "\<not> recoveryDue (nowMs env) (fst st) (''Pole2'', ''Pole3'')"
    "\<not> recoveryDue (nowMs env) (fst st) (''Pole3'', ''Pole4'')"
    using assms by (simp_all add: adjacentPairs_eq)
  note n1 = checkSegment_noop [OF r0(1) d0(1)]
  have r1: "recorded (fst ?s1) (''Pole2'', ''Pole3'')" "recorded (fst ?s1) (''Pole3'', ''Pole4'')"
    by (rule recorded_kept [OF r0(2) segments_distinct(1)],
        rule recorded_kept [OF r0(3) segments_distinct(2)])
  have d1: "\<not> recoveryDue (nowMs env) (fst ?s1) (''Pole2'', ''Pole3'')"
    "\<not> recoveryDue (nowMs env) (fst ?s1) (''Pole3'', ''Pole4'')"
    by (rule not_due_kept [OF d0(2) segments_distinct(1)],
        rule not_due_kept [OF d0(3) segments_distinct(2)])
  note n2 = checkSegment_noop [OF r1(1) d1(1)]
  have r2: "recorded (fst ?s2) (''Pole3'', ''Pole4'')"
    by (rule recorded_kept [OF r1(2) segments_distinct(4)])
  have d2: "\<not> recoveryDue (nowMs env) (fst ?s2) (''Pole3'', ''Pole4'')"
    by (rule not_due_kept [OF d1(2) segments_distinct(4)])
  note n3 = checkSegment_noop [OF r2 d2]
  show ?thesis unfolding sweep_def by (simp only: n1 n2 n3 simp_thms)
qed

section \<open>Running the sweep twice\<close>

lemma runFaultEngine_loop:
  assumes "\<not> gridLow (poleStates c)"
      and "\<not> (gridHigh (poleStates c) \<and> status (systemState c) = GRID_DOWN)"
  shows "runFaultEngine (queueCommand env) env c = sweep env (c, False)"
proof -
  from assms(2) have "(gridHigh (poleStates c) \<and> status (systemState c) = GRID_DOWN) = False"
    by blast
  with assms(1) show ?thesis by (simp only: runFaultEngine_sweep if_False)
qed

lemma gridLow_not_gridHigh: "gridLow store \<Longrightarrow> \<not> gridHigh store"
  by (auto simp: gridLow_def gridHigh_def split: option.splits)

lemma status_sweep:
  "status (systemState (fst (sweep env st))) = GRID_DOWN \<Longrightarrow> status (systemState (fst st)) = GRID_DOWN"
  unfolding sweep_def by (blast dest: status_checkSegment)

text \<open>The second of two runs at one clock value finds no recovery due.\<close>

lemma same_instant_not_due:
  assumes "\<not> (gridHigh (poleStates c) \<and> status (systemState c) = GRID_DOWN)"
  shows "noRecoveryDue (nowMs env) (fst (runFaultEngine (queueCommand env) env c))"
proof (cases "gridLow (poleStates c)")
  case True
  then show ?thesis by (simp add: noRecoveryDue_def)
next
  case False
  then have "runFaultEngine (queueCommand env) env c = sweep env (c, False)"
    using assms by (rule runFaultEngine_loop)
  then show ?thesis using sweep_settles [of _ env "(c, False)"] by (simp add: noRecoveryDue_def)
qed

text \<open>
  C3. The sweep runs twice on an unchanged store. If the first run is not the one that
  only restores the grid (first node HIGH while the status is GRID_DOWN), and the clock
  value of the second run makes no isolated segment's recovery due, then the second run
  returns \<open>changed = false\<close> and leaves the isolated segments and the command queues as
  the first run left them.
\<close>

theorem C3_second_run_idempotent:
  assumes "\<not> (gridHigh (poleStates c) \<and> status (systemState c) = GRID_DOWN)"
      and "noRecoveryDue (nowMs env2) (fst (runFaultEngine (queueCommand env1) env1 c))"
  shows "snd (runFaultEngine (queueCommand env2) env2
                (fst (runFaultEngine (queueCommand env1) env1 c))) = False \<and>
         isolatedSegments (systemState (fst (runFaultEngine (queueCommand env2) env2
                (fst (runFaultEngine (queueCommand env1) env1 c)))))
           = isolatedSegments (systemState (fst (runFaultEngine (queueCommand env1) env1 c))) \<and>
         pendingCommands (fst (runFaultEngine (queueCommand env2) env2
                (fst (runFaultEngine (queueCommand env1) env1 c))))
           = pendingCommands (fst (runFaultEngine (queueCommand env1) env1 c))"
proof (cases "gridLow (poleStates c)")
  case True
  define c1 where "c1 = fst (runFaultEngine (queueCommand env1) env1 c)"
  have "gridLow (poleStates c1)" "status (systemState c1) = GRID_DOWN"
    using True by (simp_all add: c1_def runFaultEngine_sweep)
  then have "runFaultEngine (queueCommand env2) env2 c1 = (c1, False)"
    by (simp add: runFaultEngine_sweep)
  then show ?thesis unfolding c1_def by simp
next
  case False
  define c1 where "c1 = fst (runFaultEngine (queueCommand env1) env1 c)"
  have r1: "runFaultEngine (queueCommand env1) env1 c = sweep env1 (c, False)"
    using False assms(1) by (rule runFaultEngine_loop)
  have c1: "c1 = fst (sweep env1 (c, False))" by (simp add: c1_def r1)
  have ps: "poleStates c1 = poleStates c" by (simp add: c1)
  have st: "\<not> (gridHigh (poleStates c1) \<and> status (systemState c1) = GRID_DOWN)"
    using assms(1) status_sweep [of env1 "(c, False)"] by (auto simp: ps c1)
  have r2: "runFaultEngine (queueCommand env2) env2 c1 = sweep env2 (c1, False)"
    using False st by (intro runFaultEngine_loop) (simp_all add: ps)
  have rec: "\<forall>p \<in> set adjacentPairs. recorded (fst (c1, False)) p"
    using sweep_settles [of _ env1 "(c, False)"] by (simp add: c1)
  have due: "\<forall>p \<in> set adjacentPairs. \<not> recoveryDue (nowMs env2) (fst (c1, False)) p"
    using assms(2) False by (simp add: noRecoveryDue_def c1_def [symmetric] ps)
  from sweep_quiet [OF rec due] show ?thesis
    unfolding c1_def [symmetric] r2 by simp
qed

theorem C3_second_run_idempotent_witness:
  "isolatedSegments (systemState (fst (runFaultEngine (queueCommand (envAt 5)) (envAt 5) cutCtx)))
     = [''Pole1-Pole2''] \<and>
   snd (runFaultEngine (queueCommand (envAt 5)) (envAt 5) cutCtx) = True \<and>
   snd (runFaultEngine (queueCommand (envAt 5)) (envAt 5)
          (fst (runFaultEngine (queueCommand (envAt 5)) (envAt 5) cutCtx))) = False \<and>
   isolatedSegments (systemState (fst (runFaultEngine (queueCommand (envAt 5)) (envAt 5)
          (fst (runFaultEngine (queueCommand (envAt 5)) (envAt 5) cutCtx)))))
     = [''Pole1-Pole2'']"
proof -
  have h1: "\<not> (gridHigh (poleStates cutCtx) \<and> status (systemState cutCtx) = GRID_DOWN)"
    by (simp add: cutCtx_def)
  note h2 = same_instant_not_due [OF h1, of "envAt 5"]
  note t = C3_second_run_idempotent [OF h1 h2]
  have g: "\<not> gridLow (poleStates cutCtx)"
    by (simp add: cutCtx_def cutStore_def gridLow_def snapshot_def getProp_def)
  have m: "mismatch (poleStates cutCtx) ''Pole1'' ''Pole2''"
    "\<not> mismatch (poleStates cutCtx) ''Pole2'' ''Pole3''" "\<not> restored (poleStates cutCtx) ''Pole2'' ''Pole3''"
    "\<not> mismatch (poleStates cutCtx) ''Pole3'' ''Pole4''" "\<not> restored (poleStates cutCtx) ''Pole3'' ''Pole4''"
    by (simp_all add: cutCtx_def cutStore_def mismatch_def restored_def snapshot_def getProp_def
          faultCondition_def recoveryCondition_def)
  have i: "isolatedSegments (systemState cutCtx) = []"
    by (simp add: cutCtx_def baseline_def)
  have r: "runFaultEngine (queueCommand (envAt 5)) (envAt 5) cutCtx
             = faultRule (queueCommand (envAt 5)) (envAt 5) ''Pole1'' ''Pole2'' (cutCtx, False)"
    using m i
    by (simp add: runFaultEngine_loop [OF g h1] sweep_def checkSegment_eq faultRule_fields not_both)
  have a: "isolatedSegments (systemState (fst (runFaultEngine (queueCommand (envAt 5)) (envAt 5) cutCtx)))
     = [''Pole1-Pole2'']"
    and b: "snd (runFaultEngine (queueCommand (envAt 5)) (envAt 5) cutCtx) = True"
    by (simp_all add: r faultRule_fields i faultSegment_def)
  from t a b show ?thesis by (elim conjE) (simp only: simp_thms)
qed

text \<open>
  After a grid outage with a cut behind Pole1: the first run only restores the grid, the
  second run on the same store isolates Pole1-Pole2 and returns \<open>changed = true\<close>.
\<close>

theorem C3_grid_restoration_then_fault:
  "isolatedSegments (systemState (fst (runFaultEngine (queueCommand (envAt 5)) (envAt 5) restoreCtx)))
     = [] \<and>
   snd (runFaultEngine (queueCommand (envAt 5)) (envAt 5)
          (fst (runFaultEngine (queueCommand (envAt 5)) (envAt 5) restoreCtx))) = True \<and>
   isolatedSegments (systemState (fst (runFaultEngine (queueCommand (envAt 5)) (envAt 5)
          (fst (runFaultEngine (queueCommand (envAt 5)) (envAt 5) restoreCtx)))))
     = [''Pole1-Pole2'']"
proof -
  define c1 where "c1 = emit EvNormal
           (restoreCtx\<lparr>systemState := (systemState restoreCtx)\<lparr>status := NORMAL, faultType := None,
                  faultLocation := None, lastRecoveryTime := Some (isoNow (envAt 5)),
                  isolatedSegments := []\<rparr>\<rparr>)"
  have g: "\<not> gridLow (poleStates restoreCtx)" "gridHigh (poleStates restoreCtx)"
    "status (systemState restoreCtx) = GRID_DOWN"
    by (simp_all add: restoreCtx_def cutStore_def gridLow_def gridHigh_def snapshot_def getProp_def)
  have r1: "runFaultEngine (queueCommand (envAt 5)) (envAt 5) restoreCtx = (c1, True)"
    using g by (simp add: runFaultEngine_sweep c1_def)
  have ps: "poleStates c1 = cutStore" by (simp add: c1_def restoreCtx_def)
  have g1: "\<not> gridLow (poleStates c1)" "status (systemState c1) = NORMAL"
    "isolatedSegments (systemState c1) = []"
    by (simp_all add: ps cutStore_def gridLow_def snapshot_def getProp_def) (simp_all add: c1_def)
  have m: "mismatch (poleStates c1) ''Pole1'' ''Pole2''"
    "\<not> mismatch (poleStates c1) ''Pole2'' ''Pole3''" "\<not> restored (poleStates c1) ''Pole2'' ''Pole3''"
    "\<not> mismatch (poleStates c1) ''Pole3'' ''Pole4''" "\<not> restored (poleStates c1) ''Pole3'' ''Pole4''"
    by (simp_all add: ps cutStore_def mismatch_def restored_def snapshot_def getProp_def
          faultCondition_def recoveryCondition_def)
  have h: "\<not> (gridHigh (poleStates c1) \<and> status (systemState c1) = GRID_DOWN)"
    by (simp add: g1)
  have r2: "runFaultEngine (queueCommand (envAt 5)) (envAt 5) c1
             = faultRule (queueCommand (envAt 5)) (envAt 5) ''Pole1'' ''Pole2'' (c1, False)"
    using g1 m
    by (simp add: runFaultEngine_loop [OF g1(1) h] sweep_def checkSegment_eq faultRule_fields not_both)
  show ?thesis
    by (simp add: r1 r2 faultRule_fields g1 faultSegment_def)
qed

section \<open>Runs with one segment active\<close>

lemma pairs_distinct:
  assumes "(u, d) \<in> set adjacentPairs" and "(a, b) \<in> set adjacentPairs" and "(a, b) \<noteq> (u, d)"
  shows "faultSegment a b \<noteq> faultSegment u d" and "a \<noteq> u"
  using assms by (auto simp: adjacentPairs_eq faultSegment_def)

text \<open>A pass over a pair changes the isolation of its own segment only, and the queue of
  its own upstream pole only.\<close>

lemma checkSegment_other:
  assumes "faultSegment a b \<noteq> x"
  shows "(x \<in> set (isolatedSegments (systemState (fst (checkSegment (queueCommand env) env a b st)))))
           = (x \<in> set (isolatedSegments (systemState (fst st))))"
  using assms
  by (cases "RECOVERY_STABLE_MS \<le> nowMs env - timerStart (nowMs env) (systemState (fst st))")
     (auto simp: checkSegment_eq faultRule_fields recoveryRule_due recoveryRule_not_due Let_def
        filter_empty_conv)

lemma queueOf_store [simp]: "queueOf (c\<lparr>poleStates := m\<rparr>) = queueOf c"
  by (simp add: queueOf_def fun_eq_iff)

lemma queueOf_systemState [simp]: "queueOf (c\<lparr>systemState := s\<rparr>) = queueOf c"
  by (simp add: queueOf_def fun_eq_iff)

lemma queueOf_upd:
  "pendingCommands c' = (pendingCommands c)(u \<mapsto> xs) \<Longrightarrow>
   queueOf c' q = (if q = u then xs else queueOf c q)"
  by (simp add: queueOf_def)

lemma queueOf_faultRule:
  "queueOf (fst (faultRule (queueCommand env) env u d st)) x =
     (if x = u then queueOf (fst st) u @ [disableCommand env u d] else queueOf (fst st) x)"
  by (rule queueOf_upd [OF faultRule_fields(2)])

lemma queueOf_recoveryRule_due:
  assumes "RECOVERY_STABLE_MS \<le> nowMs env - timerStart (nowMs env) (systemState (fst st))"
  shows "queueOf (fst (recoveryRule (queueCommand env) env u d st)) x =
     (if x = u then queueOf (fst st) u @ [enableCommand env u d] else queueOf (fst st) x)"
  by (rule queueOf_upd [OF recoveryRule_due(2) [OF assms]])

lemma queueOf_recoveryRule_not_due:
  assumes "\<not> RECOVERY_STABLE_MS \<le> nowMs env - timerStart (nowMs env) (systemState (fst st))"
  shows "queueOf (fst (recoveryRule (queueCommand env) env u d st)) x = queueOf (fst st) x"
  by (simp add: recoveryRule_not_due [OF assms] queueOf_def)

lemma checkSegment_queue_other:
  assumes "a \<noteq> u"
  shows "queueOf (fst (checkSegment (queueCommand env) env a b st)) u = queueOf (fst st) u"
  using assms
  by (cases "RECOVERY_STABLE_MS \<le> nowMs env - timerStart (nowMs env) (systemState (fst st))")
     (simp_all add: checkSegment_eq queueOf_faultRule queueOf_recoveryRule_due
        queueOf_recoveryRule_not_due)

text \<open>A pass over a pair at rest does nothing.\<close>

lemma checkSegment_rest:
  assumes "atRest (set (isolatedSegments (systemState (fst st)))) (poleStates (fst st)) (a, b)"
  shows "checkSegment (queueCommand env) env a b st = st"
  using assms by (auto simp: checkSegment_eq atRest_def)

lemma atRest_same:
  assumes "sameElsewhere (u, d) I c" and "faultSegment a b \<noteq> faultSegment u d"
  shows "atRest (set (isolatedSegments (systemState c))) store (a, b) = atRest I store (a, b)"
  using assms by (simp add: atRest_def sameElsewhere_def)

text \<open>What a release leaves of the isolations and the status.\<close>

lemma recoveryRule_due_iso:
  assumes "RECOVERY_STABLE_MS \<le> nowMs env - timerStart (nowMs env) (systemState (fst st))"
  shows "isolatedSegments (systemState (fst (recoveryRule (queueCommand env) env u d st)))
           = filter (\<lambda>x. x \<noteq> faultSegment u d) (isolatedSegments (systemState (fst st)))"
    and "status (systemState (fst st)) \<noteq> GRID_DOWN \<Longrightarrow>
         status (systemState (fst (recoveryRule (queueCommand env) env u d st))) \<noteq> GRID_DOWN"
  by (simp_all add: recoveryRule_due(1) [OF assms] Let_def)

lemma sameElsewhere_filter:
  assumes "sameElsewhere (u, d) I c"
      and "isolatedSegments (systemState c')
             = filter (\<lambda>x. x \<noteq> faultSegment u d) (isolatedSegments (systemState c))"
  shows "sameElsewhere (u, d) I c'"
  unfolding sameElsewhere_def
proof (intro allI impI)
  fix x assume "x \<noteq> faultSegment (fst (u, d)) (snd (u, d))"
  then have n: "x \<noteq> faultSegment u d" by simp
  have "(x \<in> set (isolatedSegments (systemState c))) = (x \<in> I)"
    using assms(1) n unfolding sameElsewhere_def by simp
  then show "(x \<in> set (isolatedSegments (systemState c'))) = (x \<in> I)"
    using n by (simp add: assms(2))
qed

lemma sameElsewhere_same:
  assumes "sameElsewhere p I c"
      and "isolatedSegments (systemState c') = isolatedSegments (systemState c)"
  shows "sameElsewhere p I c'"
  using assms unfolding sameElsewhere_def by simp

text \<open>When every other pair is at rest, the sweep is the pass over \<open>p\<close>.\<close>

lemma sweep_at:
  assumes "(u, d) \<in> set adjacentPairs"
      and "othersAtRest (u, d) I (poleStates (fst st))"
      and "sameElsewhere (u, d) I (fst st)"
  shows "sweep env st = checkSegment (queueCommand env) env u d st"
proof -
  let ?p = "checkSegment (queueCommand env) env u d st"
  have r: "atRest I (poleStates (fst st)) (a, b)"
    if "(a, b) \<in> set adjacentPairs" "(a, b) \<noteq> (u, d)" for a b
    using assms(2) that by (auto simp: othersAtRest_def)
  have before: "checkSegment (queueCommand env) env a b st = st"
    if "(a, b) \<in> set adjacentPairs" "(a, b) \<noteq> (u, d)" for a b
    using r [OF that] atRest_same [OF assms(3) pairs_distinct(1) [OF assms(1) that]]
    by (intro checkSegment_rest) simp
  have after: "checkSegment (queueCommand env) env a b ?p = ?p"
    if "(a, b) \<in> set adjacentPairs" "(a, b) \<noteq> (u, d)" for a b
  proof -
    have n: "faultSegment u d \<noteq> faultSegment a b"
      using pairs_distinct(1) [OF assms(1) that] by simp
    have "sameElsewhere (u, d) I (fst ?p)"
      using assms(3) by (simp add: sameElsewhere_def checkSegment_other)
    from r [OF that] atRest_same [OF this pairs_distinct(1) [OF assms(1) that]]
    show ?thesis by (intro checkSegment_rest) simp
  qed
  from assms(1) consider "(u, d) = (''Pole1'', ''Pole2'')" | "(u, d) = (''Pole2'', ''Pole3'')"
    | "(u, d) = (''Pole3'', ''Pole4'')"
    by (auto simp: adjacentPairs_eq)
  then show ?thesis
  proof cases
    case 1
    then have u: "u = ''Pole1''" "d = ''Pole2''" by simp_all
    have a1: "checkSegment (queueCommand env) env ''Pole2'' ''Pole3'' ?p = ?p"
      and a2: "checkSegment (queueCommand env) env ''Pole3'' ''Pole4'' ?p = ?p"
      by (rule after; simp add: adjacentPairs_eq u)+
    show ?thesis unfolding sweep_def using a1 a2 unfolding u by simp
  next
    case 2
    then have u: "u = ''Pole2''" "d = ''Pole3''" by simp_all
    have b1: "checkSegment (queueCommand env) env ''Pole1'' ''Pole2'' st = st"
      by (rule before; simp add: adjacentPairs_eq u)
    have a2: "checkSegment (queueCommand env) env ''Pole3'' ''Pole4'' ?p = ?p"
      by (rule after; simp add: adjacentPairs_eq u)
    show ?thesis unfolding sweep_def using b1 a2 unfolding u by simp
  next
    case 3
    then have u: "u = ''Pole3''" "d = ''Pole4''" by simp_all
    have b1: "checkSegment (queueCommand env) env ''Pole1'' ''Pole2'' st = st"
      and b2: "checkSegment (queueCommand env) env ''Pole2'' ''Pole3'' st = st"
      by (rule before; simp add: adjacentPairs_eq u)+
    show ?thesis unfolding sweep_def using b1 b2 unfolding u by simp
  qed
qed

text \<open>The system state after a run that reaches the loop.\<close>

lemma engineRun_loop:
  assumes "\<not> gridLow (snd r)" and "status (systemState c) \<noteq> GRID_DOWN"
  shows "engineRun r c = fst (sweep (fst r) (c\<lparr>poleStates := snd r\<rparr>, False))"
  using assms by (simp add: engineRun_def runFaultEngine_loop)

text \<open>A run of the engine that reaches the loop, with only \<open>p\<close> possibly active.\<close>

lemma engineRun_at:
  assumes "(u, d) \<in> set adjacentPairs"
      and "\<not> gridLow (snd r)" and "status (systemState c) \<noteq> GRID_DOWN"
      and "othersAtRest (u, d) I (snd r)" and "sameElsewhere (u, d) I c"
  shows "engineRun r c =
           fst (checkSegment (queueCommand (fst r)) (fst r) u d (c\<lparr>poleStates := snd r\<rparr>, False))"
proof -
  let ?c = "c\<lparr>poleStates := snd r\<rparr>"
  have "sweep (fst r) (?c, False) = checkSegment (queueCommand (fst r)) (fst r) u d (?c, False)"
  proof (rule sweep_at [where I = I, OF assms(1)])
    show "othersAtRest (u, d) I (poleStates (fst (?c, False)))" using assms(4) by simp
    show "sameElsewhere (u, d) I (fst (?c, False))"
      by (rule sameElsewhere_same [OF assms(5)]) simp
  qed
  then show ?thesis by (simp add: engineRun_loop [OF assms(2,3)])
qed

text \<open>A run that sees power on both sides of the isolated segment.\<close>

lemma restored_run:
  assumes "(u, d) \<in> set adjacentPairs" and "restoredRun (u, d) I r"
      and "held (u, d) I q c"
  shows "if RECOVERY_STABLE_MS \<le> nowMs (fst r) - timerStart (nowMs (fst r)) (systemState c)
         then released (u, d) I q (engineRun r c)
         else timing (u, d) I (timerStart (nowMs (fst r)) (systemState c)) q (engineRun r c)"
proof -
  let ?c = "c\<lparr>poleStates := snd r\<rparr>"
  let ?r = "recoveryRule (queueCommand (fst r)) (fst r) u d (?c, False)"
  have i: "faultSegment u d \<in> set (isolatedSegments (systemState c))"
    "sameElsewhere (u, d) I c" "status (systemState c) \<noteq> GRID_DOWN" "queueOf c u = q"
    using assms(3) by (simp_all add: held_def)
  have rr: "\<not> gridLow (snd r)" "restored (snd r) u d" "othersAtRest (u, d) I (snd r)"
    using assms(2) by (simp_all add: restoredRun_def)
  have e: "engineRun r c =
             fst (checkSegment (queueCommand (fst r)) (fst r) u d (?c, False))"
    by (rule engineRun_at [OF assms(1) rr(1) i(3) rr(3) i(2)])
  have nm: "\<not> mismatch (snd r) u d" using rr(2) not_both by blast
  have f: "checkSegment (queueCommand (fst r)) (fst r) u d (?c, False) = ?r"
    using rr(2) i(1) nm by (simp add: checkSegment_eq)
  show ?thesis
  proof (cases "RECOVERY_STABLE_MS \<le> nowMs (fst r) - timerStart (nowMs (fst r)) (systemState c)")
    case True
    then have t: "RECOVERY_STABLE_MS \<le> nowMs (fst r) - timerStart (nowMs (fst r)) (systemState (fst (?c, False)))"
      by simp
    have iso: "isolatedSegments (systemState (fst ?r))
                 = filter (\<lambda>x. x \<noteq> faultSegment u d) (isolatedSegments (systemState c))"
      using recoveryRule_due_iso(1) [OF t] by simp
    have st: "status (systemState (fst ?r)) \<noteq> GRID_DOWN"
      using recoveryRule_due_iso(2) [OF t] i(3) by simp
    have qu: "queueOf (fst ?r) u = q @ [enableCommand (fst r) u d]"
      using queueOf_recoveryRule_due [OF t, of u d u] i(4) by simp
    have a: "faultSegment u d \<notin> set (isolatedSegments (systemState (fst ?r)))"
      unfolding iso by simp
    have b: "sameElsewhere (u, d) I (fst ?r)"
      by (rule sameElsewhere_filter [OF i(2) iso])
    have "released (u, d) I q (engineRun r c)"
      unfolding e f released_def using a b st qu by auto
    with True show ?thesis by simp
  next
    case False
    then have t: "\<not> RECOVERY_STABLE_MS \<le> nowMs (fst r) - timerStart (nowMs (fst r)) (systemState (fst (?c, False)))"
      by simp
    have rv: "fst ?r = ?c\<lparr>systemState := (systemState c)
                 \<lparr>recoveryStartTime := Some (timerStart (nowMs (fst r)) (systemState c))\<rparr>\<rparr>"
      by (simp add: recoveryRule_not_due [OF t])
    have b: "sameElsewhere (u, d) I (fst ?r)"
      by (rule sameElsewhere_same [OF i(2)]) (simp add: rv)
    have "timing (u, d) I (timerStart (nowMs (fst r)) (systemState c)) q (engineRun r c)"
      unfolding e f timing_def held_def
      using i(1,3,4) b by (simp add: rv queueOf_def)
    with False show ?thesis by simp
  qed
qed

text \<open>A run that does not see power on both sides leaves the isolation and the timer.\<close>

lemma unrestored_run:
  assumes "(u, d) \<in> set adjacentPairs" and "unrestoredRun (u, d) I r"
      and "held (u, d) I q c"
  shows "systemState (engineRun r c) = systemState c \<and>
         pendingCommands (engineRun r c) = pendingCommands c"
proof -
  let ?c = "c\<lparr>poleStates := snd r\<rparr>"
  have i: "faultSegment u d \<in> set (isolatedSegments (systemState c))"
    "sameElsewhere (u, d) I c" "status (systemState c) \<noteq> GRID_DOWN"
    using assms(3) by (simp_all add: held_def)
  have rr: "\<not> gridLow (snd r)" "\<not> restored (snd r) u d" "othersAtRest (u, d) I (snd r)"
    using assms(2) by (simp_all add: unrestoredRun_def)
  have e: "engineRun r c =
             fst (checkSegment (queueCommand (fst r)) (fst r) u d (?c, False))"
    by (rule engineRun_at [OF assms(1) rr(1) i(3) rr(3) i(2)])
  have f: "checkSegment (queueCommand (fst r)) (fst r) u d (?c, False) = (?c, False)"
    using rr(2) i(1) by (simp add: checkSegment_eq)
  show ?thesis unfolding e f by simp
qed

text \<open>Once the segment is released, further runs that see power on both sides do nothing.\<close>

lemma released_run:
  assumes "(u, d) \<in> set adjacentPairs" and "restoredRun (u, d) I r"
      and "released (u, d) I q c"
  shows "released (u, d) I q (engineRun r c)"
proof -
  let ?c = "c\<lparr>poleStates := snd r\<rparr>"
  have i: "faultSegment u d \<notin> set (isolatedSegments (systemState c))"
    "sameElsewhere (u, d) I c" "status (systemState c) \<noteq> GRID_DOWN"
    using assms(3) by (simp_all add: released_def)
  have rr: "\<not> gridLow (snd r)" "restored (snd r) u d" "othersAtRest (u, d) I (snd r)"
    using assms(2) by (simp_all add: restoredRun_def)
  have e: "engineRun r c =
             fst (checkSegment (queueCommand (fst r)) (fst r) u d (?c, False))"
    by (rule engineRun_at [OF assms(1) rr(1) i(3) rr(3) i(2)])
  have nm: "\<not> mismatch (snd r) u d" using rr(2) not_both by blast
  have f: "checkSegment (queueCommand (fst r)) (fst r) u d (?c, False) = (?c, False)"
    using nm i(1) by (simp add: checkSegment_eq)
  have b: "sameElsewhere (u, d) I ?c"
    by (rule sameElsewhere_same [OF i(2)]) simp
  show ?thesis using assms(3) b unfolding e f by (simp add: released_def)
qed

lemma engineRuns_simps [simp]:
  "engineRuns [] c = c"
  "engineRuns (r # rs) c = engineRuns rs (engineRun r c)"
  "engineRuns (rs @ rs') c = engineRuns rs' (engineRuns rs c)"
  by (simp_all add: engineRuns_def)

lemma held_cong:
  "systemState c' = systemState c \<Longrightarrow> pendingCommands c' = pendingCommands c
   \<Longrightarrow> held p I q c' = held p I q c"
  by (simp add: held_def sameElsewhere_def queueOf_def)

lemma timerStart_set: "t \<noteq> 0 \<Longrightarrow> recoveryStartTime s = Some t \<Longrightarrow> timerStart now s = t"
  by (simp add: timerStart_def timerUnset_def)

lemma timerStart_unset: "timerUnset (recoveryStartTime s) \<Longrightarrow> timerStart now s = now"
  by (simp add: timerStart_def)

text \<open>While every run sees power on both sides, the timer runs since the first of them or
  the segment has been released.\<close>

lemma hold_invariant:
  assumes "(u, d) \<in> set adjacentPairs" and "held (u, d) I q c"
      and "timerUnset (recoveryStartTime (systemState c))"
      and "rs \<noteq> []" and "\<forall>r \<in> set rs. restoredRun (u, d) I r" and "nowMs (fst (hd rs)) \<noteq> 0"
  shows "timing (u, d) I (nowMs (fst (hd rs))) q (engineRuns rs c) \<or>
         released (u, d) I q (engineRuns rs c)"
  using assms(4-6)
proof (induction rs rule: rev_induct)
  case Nil
  then show ?case by simp
next
  case (snoc r rs)
  have rr: "restoredRun (u, d) I r" using snoc.prems by simp
  show ?case
  proof (cases "rs = []")
    case True
    have "\<not> RECOVERY_STABLE_MS \<le> nowMs (fst r) - timerStart (nowMs (fst r)) (systemState c)"
      by (simp add: timerStart_unset [OF assms(3)] RECOVERY_STABLE_MS_def)
    with restored_run [OF assms(1) rr assms(2)] show ?thesis
      using True by (simp add: timerStart_unset [OF assms(3)])
  next
    case False
    then have hd: "hd (rs @ [r]) = hd rs" by simp
    have IH: "timing (u, d) I (nowMs (fst (hd rs))) q (engineRuns rs c) \<or>
              released (u, d) I q (engineRuns rs c)"
      using snoc.IH [OF False] snoc.prems hd by simp
    then show ?thesis
    proof
      assume t: "timing (u, d) I (nowMs (fst (hd rs))) q (engineRuns rs c)"
      then have ia: "held (u, d) I q (engineRuns rs c)"
        and ts: "timerStart (nowMs (fst r)) (systemState (engineRuns rs c)) = nowMs (fst (hd rs))"
        using snoc.prems(3) hd by (simp_all add: timing_def timerStart_set)
      from restored_run [OF assms(1) rr ia] show ?thesis
        unfolding ts hd by (auto split: if_splits)
    next
      assume "released (u, d) I q (engineRuns rs c)"
      from released_run [OF assms(1) rr this] show ?thesis by simp
    qed
  qed
qed

lemma hold_long:
  assumes "(u, d) \<in> set adjacentPairs" and "held (u, d) I q c"
      and "timerUnset (recoveryStartTime (systemState c))"
      and "rs \<noteq> []" and "\<forall>r \<in> set rs. restoredRun (u, d) I r" and "nowMs (fst (hd rs)) \<noteq> 0"
      and "RECOVERY_STABLE_MS \<le> nowMs (fst (last rs)) - nowMs (fst (hd rs))"
  shows "released (u, d) I q (engineRuns rs c)"
proof -
  obtain rs0 r where rs: "rs = rs0 @ [r]" using assms(4) by (metis rev_exhaust)
  have ne: "rs0 \<noteq> []"
  proof
    assume "rs0 = []"
    then show False using assms(7) rs by (simp add: RECOVERY_STABLE_MS_def)
  qed
  then have hd: "hd rs = hd rs0" using rs by simp
  have rr: "restoredRun (u, d) I r" using assms(5) rs by simp
  have "timing (u, d) I (nowMs (fst (hd rs0))) q (engineRuns rs0 c) \<or>
        released (u, d) I q (engineRuns rs0 c)"
    using hold_invariant [OF assms(1-3) ne] assms(5,6) rs hd by simp
  then show ?thesis
  proof
    assume t: "timing (u, d) I (nowMs (fst (hd rs0))) q (engineRuns rs0 c)"
    then have ia: "held (u, d) I q (engineRuns rs0 c)"
      and ts: "timerStart (nowMs (fst r)) (systemState (engineRuns rs0 c)) = nowMs (fst (hd rs0))"
      using assms(6) hd by (simp_all add: timing_def timerStart_set)
    have "RECOVERY_STABLE_MS \<le> nowMs (fst r) - nowMs (fst (hd rs0))"
      using assms(7) unfolding hd by (simp add: rs)
    with restored_run [OF assms(1) rr ia] show ?thesis
      unfolding ts by (simp add: rs)
  next
    assume "released (u, d) I q (engineRuns rs0 c)"
    from released_run [OF assms(1) rr this] show ?thesis by (simp add: rs)
  qed
qed

lemma hold_short:
  assumes "(u, d) \<in> set adjacentPairs" and "held (u, d) I q c"
      and "timerUnset (recoveryStartTime (systemState c))"
      and "rs \<noteq> []" and "\<forall>r \<in> set rs. restoredRun (u, d) I r" and "nowMs (fst (hd rs)) \<noteq> 0"
      and "\<forall>r \<in> set rs. nowMs (fst r) - nowMs (fst (hd rs)) \<le> 2999"
  shows "timing (u, d) I (nowMs (fst (hd rs))) q (engineRuns rs c)"
  using assms(4-7)
proof (induction rs rule: rev_induct)
  case Nil
  then show ?case by simp
next
  case (snoc r rs)
  have rr: "restoredRun (u, d) I r" using snoc.prems by simp
  show ?case
  proof (cases "rs = []")
    case True
    have "\<not> RECOVERY_STABLE_MS \<le> nowMs (fst r) - timerStart (nowMs (fst r)) (systemState c)"
      by (simp add: timerStart_unset [OF assms(3)] RECOVERY_STABLE_MS_def)
    with restored_run [OF assms(1) rr assms(2)] show ?thesis
      using True by (simp add: timerStart_unset [OF assms(3)])
  next
    case False
    then have hd: "hd (rs @ [r]) = hd rs" by simp
    have t: "timing (u, d) I (nowMs (fst (hd rs))) q (engineRuns rs c)"
      using snoc.IH [OF False] snoc.prems hd by simp
    then have ia: "held (u, d) I q (engineRuns rs c)"
      and ts: "timerStart (nowMs (fst r)) (systemState (engineRuns rs c)) = nowMs (fst (hd rs))"
      using snoc.prems(3) hd by (simp_all add: timing_def timerStart_set)
    have "\<not> RECOVERY_STABLE_MS \<le> nowMs (fst r) - nowMs (fst (hd rs))"
      using snoc.prems(4) hd by (simp add: RECOVERY_STABLE_MS_def)
    with restored_run [OF assms(1) rr ia] show ?thesis
      unfolding ts hd by simp
  qed
qed

lemma unrestored_runs:
  assumes "(u, d) \<in> set adjacentPairs" and "held (u, d) I q c"
      and "\<forall>r \<in> set rs. unrestoredRun (u, d) I r"
  shows "systemState (engineRuns rs c) = systemState c \<and>
         pendingCommands (engineRuns rs c) = pendingCommands c"
  using assms(3)
proof (induction rs rule: rev_induct)
  case Nil
  then show ?case by simp
next
  case (snoc r rs)
  then have IH: "systemState (engineRuns rs c) = systemState c"
    "pendingCommands (engineRuns rs c) = pendingCommands c"
    and ur: "unrestoredRun (u, d) I r"
    by simp_all
  have "held (u, d) I q (engineRuns rs c)"
    using assms(2) by (simp add: held_cong [OF IH])
  from unrestored_run [OF assms(1) ur this] show ?case by (simp add: IH)
qed

section \<open>The run that finds the mismatch\<close>

text \<open>The pass over the pair itself.\<close>

lemma pass_faults:
  assumes "mismatch (poleStates (fst st)) u d"
      and "faultSegment u d \<notin> set (isolatedSegments (systemState (fst st)))"
  shows "faultSegment u d \<in> set (isolatedSegments
            (systemState (fst (checkSegment (queueCommand env) env u d st)))) \<and>
         status (systemState (fst (checkSegment (queueCommand env) env u d st))) = FAULT \<and>
         faultLocation (systemState (fst (checkSegment (queueCommand env) env u d st)))
           = Some (faultSegment u d) \<and>
         queueOf (fst (checkSegment (queueCommand env) env u d st)) u
           = queueOf (fst st) u @ [disableCommand env u d]"
  using assms by (simp add: checkSegment_eq faultRule_fields queueOf_faultRule)

text \<open>A pass over another pair, before and after it.\<close>

lemma pass_before:
  assumes "faultSegment a b \<noteq> faultSegment u d" and "a \<noteq> u"
  shows "(faultSegment u d \<in> set (isolatedSegments
            (systemState (fst (checkSegment (queueCommand env) env a b st)))))
           = (faultSegment u d \<in> set (isolatedSegments (systemState (fst st)))) \<and>
         queueOf (fst (checkSegment (queueCommand env) env a b st)) u = queueOf (fst st) u"
  using checkSegment_other [OF assms(1)] checkSegment_queue_other [OF assms(2)] by simp

lemma pass_after:
  assumes "faultSegment u d \<in> set (isolatedSegments (systemState (fst st)))"
      and "status (systemState (fst st)) = FAULT"
      and "faultSegment a b \<noteq> faultSegment u d"
  shows "status (systemState (fst (checkSegment (queueCommand env) env a b st))) = FAULT \<and>
         (\<not> (mismatch (poleStates (fst st)) a b \<and>
             faultSegment a b \<notin> set (isolatedSegments (systemState (fst st)))) \<longrightarrow>
          faultLocation (systemState (fst (checkSegment (queueCommand env) env a b st)))
            = faultLocation (systemState (fst st)))"
  using assms
  by (cases "RECOVERY_STABLE_MS \<le> nowMs env - timerStart (nowMs env) (systemState (fst st))")
     (auto simp: checkSegment_eq faultRule_fields recoveryRule_due recoveryRule_not_due Let_def
        filter_empty_conv)

lemma laterPairs_eq:
  "laterPairs (''Pole1'', ''Pole2'') = [(''Pole2'', ''Pole3''), (''Pole3'', ''Pole4'')]"
  "laterPairs (''Pole2'', ''Pole3'') = [(''Pole3'', ''Pole4'')]"
  "laterPairs (''Pole3'', ''Pole4'') = []"
  by (simp_all add: laterPairs_def adjacentPairs_eq)

text \<open>The segment's pass followed by a pass over another pair.\<close>

lemma pass_then:
  assumes "faultSegment u d \<in> set (isolatedSegments (systemState (fst st))) \<and>
           status (systemState (fst st)) = FAULT \<and> queueOf (fst st) u = q \<and>
           (L \<longrightarrow> faultLocation (systemState (fst st)) = Some (faultSegment u d))"
      and "faultSegment a b \<noteq> faultSegment u d" and "a \<noteq> u"
      and "L \<longrightarrow> \<not> (mismatch (poleStates (fst st)) a b \<and>
                     faultSegment a b \<notin> set (isolatedSegments (systemState (fst st))))"
  shows "faultSegment u d \<in> set (isolatedSegments
            (systemState (fst (checkSegment (queueCommand env) env a b st)))) \<and>
         status (systemState (fst (checkSegment (queueCommand env) env a b st))) = FAULT \<and>
         queueOf (fst (checkSegment (queueCommand env) env a b st)) u = q \<and>
         (L \<longrightarrow> faultLocation (systemState (fst (checkSegment (queueCommand env) env a b st)))
                  = Some (faultSegment u d))"
proof -
  from assms(1) have i: "faultSegment u d \<in> set (isolatedSegments (systemState (fst st)))"
    and s: "status (systemState (fst st)) = FAULT" and q: "queueOf (fst st) u = q"
    by simp_all
  from pass_before [OF assms(2,3), of env st] pass_after [OF i s assms(2), of env]
  show ?thesis using assms(1,4) by auto
qed

text \<open>A run that reaches the pair loop and finds the mismatch on a segment that is not
  isolated: whatever the other pairs show, the segment is isolated, the status is FAULT and
  the upstream pole's queue has one more entry, the DISABLE command.\<close>

lemma fault_run:
  assumes "(u, d) \<in> set adjacentPairs"
      and "faultSegment u d \<notin> set (isolatedSegments (systemState c))"
      and "\<not> gridLow (snd r)"
      and "\<not> (gridHigh (snd r) \<and> status (systemState c) = GRID_DOWN)"
      and "mismatch (snd r) u d"
  shows "faultSegment u d \<in> set (isolatedSegments (systemState (engineRun r c))) \<and>
         status (systemState (engineRun r c)) = FAULT \<and>
         queueOf (engineRun r c) u = queueOf c u @ [disableCommand (fst r) u d] \<and>
         ((\<forall>q \<in> set (laterPairs (u, d)). \<not> newFault c (snd r) q) \<longrightarrow>
            faultLocation (systemState (engineRun r c)) = Some (faultSegment u d))"
proof -
  let ?env = "fst r"
  let ?L = "\<forall>q \<in> set (laterPairs (u, d)). \<not> newFault c (snd r) q"
  let ?q = "queueOf c u @ [disableCommand (fst r) u d]"
  define st where "st = (c\<lparr>poleStates := snd r\<rparr>, False)"
  let ?s1 = "checkSegment (queueCommand ?env) ?env ''Pole1'' ''Pole2'' st"
  let ?s2 = "checkSegment (queueCommand ?env) ?env ''Pole2'' ''Pole3'' ?s1"
  let ?s3 = "checkSegment (queueCommand ?env) ?env ''Pole3'' ''Pole4'' ?s2"
  have e: "engineRun r c = fst ?s3"
    using assms(3,4) by (simp add: engineRun_def runFaultEngine_loop sweep_def st_def)
  have st: "poleStates (fst st) = snd r" "queueOf (fst st) = queueOf c"
    "isolatedSegments (systemState (fst st)) = isolatedSegments (systemState c)"
    by (simp_all add: st_def)
  note sd = segments_distinct
  from assms(1) consider "(u, d) = (''Pole1'', ''Pole2'')" | "(u, d) = (''Pole2'', ''Pole3'')"
    | "(u, d) = (''Pole3'', ''Pole4'')"
    by (auto simp: adjacentPairs_eq)
  then show ?thesis
  proof cases
    case 1
    then have u: "u = ''Pole1''" "d = ''Pole2''" by simp_all
    have p1: "faultSegment u d \<in> set (isolatedSegments (systemState (fst ?s1))) \<and>
              status (systemState (fst ?s1)) = FAULT \<and> queueOf (fst ?s1) u = ?q \<and>
              (?L \<longrightarrow> faultLocation (systemState (fst ?s1)) = Some (faultSegment u d))"
      using pass_faults [of st u d ?env] assms(2,5) unfolding u by (simp add: st)
    have i2: "(faultSegment ''Pole2'' ''Pole3'' \<in> set (isolatedSegments (systemState (fst ?s1))))
                = (faultSegment ''Pole2'' ''Pole3'' \<in> set (isolatedSegments (systemState c)))"
      using checkSegment_other [OF sd(1), of ?env st] by (simp add: st)
    have l2: "?L \<longrightarrow> \<not> (mismatch (poleStates (fst ?s1)) ''Pole2'' ''Pole3'' \<and>
                faultSegment ''Pole2'' ''Pole3'' \<notin> set (isolatedSegments (systemState (fst ?s1))))"
      unfolding i2 by (simp add: u laterPairs_eq newFault_def st)
    have p2: "faultSegment u d \<in> set (isolatedSegments (systemState (fst ?s2))) \<and>
              status (systemState (fst ?s2)) = FAULT \<and> queueOf (fst ?s2) u = ?q \<and>
              (?L \<longrightarrow> faultLocation (systemState (fst ?s2)) = Some (faultSegment u d))"
      by (rule pass_then [OF p1 _ _ l2]) (simp_all add: u faultSegment_def)
    have i3: "(faultSegment ''Pole3'' ''Pole4'' \<in> set (isolatedSegments (systemState (fst ?s2))))
                = (faultSegment ''Pole3'' ''Pole4'' \<in> set (isolatedSegments (systemState c)))"
      using checkSegment_other [OF sd(2), of ?env st] checkSegment_other [OF sd(4), of ?env ?s1]
      by (simp add: st)
    have l3: "?L \<longrightarrow> \<not> (mismatch (poleStates (fst ?s2)) ''Pole3'' ''Pole4'' \<and>
                faultSegment ''Pole3'' ''Pole4'' \<notin> set (isolatedSegments (systemState (fst ?s2))))"
      unfolding i3 by (simp add: u laterPairs_eq newFault_def st)
    have p3: "faultSegment u d \<in> set (isolatedSegments (systemState (fst ?s3))) \<and>
              status (systemState (fst ?s3)) = FAULT \<and> queueOf (fst ?s3) u = ?q \<and>
              (?L \<longrightarrow> faultLocation (systemState (fst ?s3)) = Some (faultSegment u d))"
      by (rule pass_then [OF p2 _ _ l3]) (simp_all add: u faultSegment_def)
    then show ?thesis unfolding e by blast
  next
    case 2
    then have u: "u = ''Pole2''" "d = ''Pole3''" by simp_all
    have b1: "(faultSegment u d \<in> set (isolatedSegments (systemState (fst ?s1))))
                = (faultSegment u d \<in> set (isolatedSegments (systemState (fst st)))) \<and>
              queueOf (fst ?s1) u = queueOf (fst st) u"
      by (rule pass_before) (simp_all add: u faultSegment_def)
    have p2: "faultSegment u d \<in> set (isolatedSegments (systemState (fst ?s2))) \<and>
              status (systemState (fst ?s2)) = FAULT \<and> queueOf (fst ?s2) u = ?q \<and>
              (?L \<longrightarrow> faultLocation (systemState (fst ?s2)) = Some (faultSegment u d))"
      using pass_faults [of ?s1 u d ?env] assms(2,5) b1 unfolding u by (simp add: st)
    have i3: "(faultSegment ''Pole3'' ''Pole4'' \<in> set (isolatedSegments (systemState (fst ?s2))))
                = (faultSegment ''Pole3'' ''Pole4'' \<in> set (isolatedSegments (systemState c)))"
      using checkSegment_other [OF sd(2), of ?env st] checkSegment_other [OF sd(4), of ?env ?s1]
      by (simp add: st)
    have l3: "?L \<longrightarrow> \<not> (mismatch (poleStates (fst ?s2)) ''Pole3'' ''Pole4'' \<and>
                faultSegment ''Pole3'' ''Pole4'' \<notin> set (isolatedSegments (systemState (fst ?s2))))"
      unfolding i3 by (simp add: u laterPairs_eq newFault_def st)
    have p3: "faultSegment u d \<in> set (isolatedSegments (systemState (fst ?s3))) \<and>
              status (systemState (fst ?s3)) = FAULT \<and> queueOf (fst ?s3) u = ?q \<and>
              (?L \<longrightarrow> faultLocation (systemState (fst ?s3)) = Some (faultSegment u d))"
      by (rule pass_then [OF p2 _ _ l3]) (simp_all add: u faultSegment_def)
    then show ?thesis unfolding e by blast
  next
    case 3
    then have u: "u = ''Pole3''" "d = ''Pole4''" by simp_all
    have b1: "(faultSegment u d \<in> set (isolatedSegments (systemState (fst ?s1))))
                = (faultSegment u d \<in> set (isolatedSegments (systemState (fst st)))) \<and>
              queueOf (fst ?s1) u = queueOf (fst st) u"
      by (rule pass_before) (simp_all add: u faultSegment_def)
    have b2: "(faultSegment u d \<in> set (isolatedSegments (systemState (fst ?s2))))
                = (faultSegment u d \<in> set (isolatedSegments (systemState (fst ?s1)))) \<and>
              queueOf (fst ?s2) u = queueOf (fst ?s1) u"
      by (rule pass_before) (simp_all add: u faultSegment_def)
    have p3: "faultSegment u d \<in> set (isolatedSegments (systemState (fst ?s3))) \<and>
              status (systemState (fst ?s3)) = FAULT \<and> queueOf (fst ?s3) u = ?q \<and>
              (?L \<longrightarrow> faultLocation (systemState (fst ?s3)) = Some (faultSegment u d))"
      using pass_faults [of ?s2 u d ?env] assms(2,5) b1 b2 unfolding u by (simp add: st)
    then show ?thesis unfolding e by blast
  qed
qed

section \<open>The stores of the examples, pair by pair\<close>

lemma liveStore_pairs:
  "\<not> gridLow liveStore" "restored liveStore ''Pole2'' ''Pole3''"
  "\<not> mismatch liveStore ''Pole1'' ''Pole2''" "\<not> mismatch liveStore ''Pole3'' ''Pole4''"
  "restored liveStore ''Pole1'' ''Pole2''" "\<not> restored liveStore ''Pole3'' ''Pole4''"
  by (simp_all add: liveStore_def gridLow_def restored_def mismatch_def snapshot_def getProp_def
        faultCondition_def recoveryCondition_def)

lemma cutStore23_pairs:
  "\<not> gridLow cutStore23" "mismatch cutStore23 ''Pole2'' ''Pole3''"
  "\<not> restored cutStore23 ''Pole2'' ''Pole3''"
  "\<not> mismatch cutStore23 ''Pole1'' ''Pole2''" "\<not> mismatch cutStore23 ''Pole3'' ''Pole4''"
  "restored cutStore23 ''Pole1'' ''Pole2''" "\<not> restored cutStore23 ''Pole3'' ''Pole4''"
  by (simp_all add: cutStore23_def liveStore_def gridLow_def restored_def mismatch_def
        snapshot_def getProp_def faultCondition_def recoveryCondition_def)

lemma twoCutsStore_pairs:
  "\<not> gridLow twoCutsStore" "mismatch twoCutsStore ''Pole1'' ''Pole2''"
  "mismatch twoCutsStore ''Pole2'' ''Pole3''" "\<not> mismatch twoCutsStore ''Pole3'' ''Pole4''"
  "\<not> restored twoCutsStore ''Pole3'' ''Pole4''"
  by (simp_all add: twoCutsStore_def gridLow_def restored_def mismatch_def
        snapshot_def getProp_def faultCondition_def recoveryCondition_def)

lemma oneCutStore_pairs:
  "\<not> gridLow oneCutStore" "restored oneCutStore ''Pole1'' ''Pole2''"
  "mismatch oneCutStore ''Pole2'' ''Pole3''" "\<not> mismatch oneCutStore ''Pole3'' ''Pole4''"
  "\<not> restored oneCutStore ''Pole3'' ''Pole4''"
  by (simp_all add: oneCutStore_def twoCutsStore_def gridLow_def restored_def mismatch_def
        snapshot_def getProp_def faultCondition_def recoveryCondition_def)

lemma backCutStore_pairs:
  "\<not> gridLow backCutStore" "mismatch backCutStore ''Pole1'' ''Pole2''"
  "\<not> restored backCutStore ''Pole1'' ''Pole2''"
  "restored backCutStore ''Pole2'' ''Pole3''" "\<not> mismatch backCutStore ''Pole3'' ''Pole4''"
  "\<not> restored backCutStore ''Pole3'' ''Pole4''"
  by (simp_all add: backCutStore_def twoCutsStore_def gridLow_def restored_def mismatch_def
        snapshot_def getProp_def faultCondition_def recoveryCondition_def)

lemma pair23: "(''Pole2'', ''Pole3'') \<in> set adjacentPairs"
  by (simp add: adjacentPairs_eq)

text \<open>The real context after the engine has seen the cut between Pole2 and Pole3 at clock
  value 100.\<close>

lemma isolated23_state:
  "isolatedSegments (systemState isolated23) = [''Pole2-Pole3'']"
  "status (systemState isolated23) = FAULT"
  "recoveryStartTime (systemState isolated23) = None"
  "queueOf isolated23 ''Pole2'' = [disableCommand (envAt 100) ''Pole2'' ''Pole3'']"
proof -
  have s: "status (systemState (newSystem RealCtx)) \<noteq> GRID_DOWN"
    "isolatedSegments (systemState (newSystem RealCtx)) = []"
    "queueOf (newSystem RealCtx) ''Pole2'' = []"
    by (simp_all add: newSystem_def baseline_def queueOf_def emptyQueues_def)
  have e: "isolated23 = fst (faultRule (queueCommand (envAt 100)) (envAt 100) ''Pole2'' ''Pole3''
                               ((newSystem RealCtx)\<lparr>poleStates := cutStore23\<rparr>, False))"
    unfolding isolated23_def
    by (simp add: engineRun_loop cutStore23_pairs s sweep_def checkSegment_eq faultRule_fields
          faultSegment_def not_both)
  show "isolatedSegments (systemState isolated23) = [''Pole2-Pole3'']"
    "status (systemState isolated23) = FAULT"
    "recoveryStartTime (systemState isolated23) = None"
    "queueOf isolated23 ''Pole2'' = [disableCommand (envAt 100) ''Pole2'' ''Pole3'']"
    unfolding e by (simp_all add: faultRule_fields queueOf_faultRule s faultSegment_def)
qed

text \<open>With Pole2-Pole3 the one isolated segment, the other pairs are at rest on both
  stores.\<close>

lemma example_runs:
  "restoredRun (''Pole2'', ''Pole3'') {''Pole2-Pole3''} (e, liveStore)"
  "unrestoredRun (''Pole2'', ''Pole3'') {''Pole2-Pole3''} (e, cutStore23)"
  "\<forall>q \<in> set (laterPairs (''Pole2'', ''Pole3'')). \<not> newFault c cutStore23 q"
  by (simp_all add: restoredRun_def unrestoredRun_def othersAtRest_def atRest_def
        adjacentPairs_eq liveStore_pairs cutStore23_pairs faultSegment_def laterPairs_eq
        newFault_def)

section \<open>The isolation round trip\<close>

text \<open>
  C1. A run of the engine reaches the pair loop (the first node does not report LOW, and it
  is not HIGH with the status GRID_DOWN) and finds upstream outgoing HIGH against
  downstream incoming LOW on an adjacent pair whose segment is not isolated. Whatever the
  context and the other pairs are, that run isolates the segment, sets the status FAULT and
  appends exactly one DISABLE_OUTGOING_RELAY to the upstream pole's queue; the fault
  location names the segment unless a pair further down the chain raises a new fault in
  the same run.

  The recovery timer is one field for all segments, so the second half is for the runs
  in which this segment alone uses it: the timer is not running after the fault run, and
  in every later run the first node does not report LOW and no other pair raises a fault
  or runs the recovery rule. After any number of runs that do not see power on both sides
  of the segment, let the runs see power on both sides, the first of them at a non-zero
  clock value. If the last of them is at least 3000 ms after the first, the segment is no
  longer isolated and exactly one ENABLE_OUTGOING_RELAY has been appended after the DISABLE.
  If all of them are at most 2999 ms after the first and the runs after them no longer see
  power on both sides, the segment is still isolated and no ENABLE has been queued.
\<close>

theorem C1_isolation_round_trip:
  assumes "(u, d) \<in> set adjacentPairs"
      and "faultSegment u d \<notin> set (isolatedSegments (systemState c))"
      and "\<not> gridLow (snd r0)"
      and "\<not> (gridHigh (snd r0) \<and> status (systemState c) = GRID_DOWN)"
      and "mismatch (snd r0) u d"
  shows "faultSegment u d \<in> set (isolatedSegments (systemState (engineRun r0 c))) \<and>
         status (systemState (engineRun r0 c)) = FAULT \<and>
         queueOf (engineRun r0 c) u = queueOf c u @ [disableCommand (fst r0) u d] \<and>
         ((\<forall>q \<in> set (laterPairs (u, d)). \<not> newFault c (snd r0) q) \<longrightarrow>
            faultLocation (systemState (engineRun r0 c)) = Some (faultSegment u d)) \<and>
         (\<forall>pre rs.
             timerUnset (recoveryStartTime (systemState (engineRun r0 c))) \<and>
             (\<forall>r \<in> set pre. unrestoredRun (u, d)
                                 (set (isolatedSegments (systemState (engineRun r0 c)))) r) \<and>
             rs \<noteq> [] \<and>
             (\<forall>r \<in> set rs. restoredRun (u, d)
                                (set (isolatedSegments (systemState (engineRun r0 c)))) r) \<and>
             nowMs (fst (hd rs)) \<noteq> 0 \<and>
             RECOVERY_STABLE_MS \<le> nowMs (fst (last rs)) - nowMs (fst (hd rs)) \<longrightarrow>
             faultSegment u d \<notin> set (isolatedSegments
                (systemState (engineRuns (pre @ rs) (engineRun r0 c)))) \<and>
             (\<exists>e. queueOf (engineRuns (pre @ rs) (engineRun r0 c)) u
                    = queueOf c u @ [disableCommand (fst r0) u d, enableCommand e u d])) \<and>
         (\<forall>pre rs post.
             timerUnset (recoveryStartTime (systemState (engineRun r0 c))) \<and>
             (\<forall>r \<in> set pre. unrestoredRun (u, d)
                                 (set (isolatedSegments (systemState (engineRun r0 c)))) r) \<and>
             rs \<noteq> [] \<and>
             (\<forall>r \<in> set rs. restoredRun (u, d)
                                (set (isolatedSegments (systemState (engineRun r0 c)))) r) \<and>
             nowMs (fst (hd rs)) \<noteq> 0 \<and>
             (\<forall>r \<in> set rs. nowMs (fst r) - nowMs (fst (hd rs)) \<le> 2999) \<and>
             (\<forall>r \<in> set post. unrestoredRun (u, d)
                                  (set (isolatedSegments (systemState (engineRun r0 c)))) r) \<longrightarrow>
             faultSegment u d \<in> set (isolatedSegments
                (systemState (engineRuns (pre @ rs @ post) (engineRun r0 c)))) \<and>
             queueOf (engineRuns (pre @ rs @ post) (engineRun r0 c)) u
               = queueOf c u @ [disableCommand (fst r0) u d])"
proof -
  define c1 where "c1 = engineRun r0 c"
  define q where "q = queueOf c u @ [disableCommand (fst r0) u d]"
  define I where "I = set (isolatedSegments (systemState c1))"
  note f = fault_run [OF assms, folded c1_def q_def]
  then have a1: "faultSegment u d \<in> set (isolatedSegments (systemState c1))"
    and a2: "status (systemState c1) = FAULT"
    and a3: "queueOf c1 u = q"
    and a4: "(\<forall>q \<in> set (laterPairs (u, d)). \<not> newFault c (snd r0) q) \<longrightarrow>
               faultLocation (systemState c1) = Some (faultSegment u d)"
    by blast+
  have h: "held (u, d) I q c1"
    using a1 a2 a3 by (simp add: held_def sameElsewhere_def I_def)
  have after_pre: "held (u, d) I q (engineRuns pre c1) \<and>
                   timerUnset (recoveryStartTime (systemState (engineRuns pre c1)))"
    if "timerUnset (recoveryStartTime (systemState c1))"
       "\<forall>r \<in> set pre. unrestoredRun (u, d) I r" for pre
  proof -
    have s: "systemState (engineRuns pre c1) = systemState c1"
      "pendingCommands (engineRuns pre c1) = pendingCommands c1"
      using unrestored_runs [OF assms(1) h that(2)] by simp_all
    show ?thesis using h that(1) by (simp add: held_cong [OF s] s(1))
  qed
  have b: "\<forall>pre rs.
             timerUnset (recoveryStartTime (systemState c1)) \<and>
             (\<forall>r \<in> set pre. unrestoredRun (u, d) I r) \<and>
             rs \<noteq> [] \<and>
             (\<forall>r \<in> set rs. restoredRun (u, d) I r) \<and>
             nowMs (fst (hd rs)) \<noteq> 0 \<and>
             RECOVERY_STABLE_MS \<le> nowMs (fst (last rs)) - nowMs (fst (hd rs)) \<longrightarrow>
             faultSegment u d \<notin> set (isolatedSegments
                (systemState (engineRuns (pre @ rs) c1))) \<and>
             (\<exists>e. queueOf (engineRuns (pre @ rs) c1) u
                    = queueOf c u @ [disableCommand (fst r0) u d, enableCommand e u d])"
  proof (intro allI impI, elim conjE)
    fix pre rs
    assume tu: "timerUnset (recoveryStartTime (systemState c1))"
      and pr: "\<forall>r \<in> set pre. unrestoredRun (u, d) I r"
      and ne: "rs \<noteq> []" and rr: "\<forall>r \<in> set rs. restoredRun (u, d) I r"
      and nz: "nowMs (fst (hd rs)) \<noteq> 0"
      and long: "RECOVERY_STABLE_MS \<le> nowMs (fst (last rs)) - nowMs (fst (hd rs))"
    from after_pre [OF tu pr]
    have h2: "held (u, d) I q (engineRuns pre c1)"
      and tu2: "timerUnset (recoveryStartTime (systemState (engineRuns pre c1)))"
      by simp_all
    from hold_long [OF assms(1) h2 tu2 ne rr nz long]
    show "faultSegment u d \<notin> set (isolatedSegments
                (systemState (engineRuns (pre @ rs) c1))) \<and>
             (\<exists>e. queueOf (engineRuns (pre @ rs) c1) u
                    = queueOf c u @ [disableCommand (fst r0) u d, enableCommand e u d])"
      by (auto simp: released_def q_def)
  qed
  have c: "\<forall>pre rs post.
             timerUnset (recoveryStartTime (systemState c1)) \<and>
             (\<forall>r \<in> set pre. unrestoredRun (u, d) I r) \<and>
             rs \<noteq> [] \<and>
             (\<forall>r \<in> set rs. restoredRun (u, d) I r) \<and>
             nowMs (fst (hd rs)) \<noteq> 0 \<and>
             (\<forall>r \<in> set rs. nowMs (fst r) - nowMs (fst (hd rs)) \<le> 2999) \<and>
             (\<forall>r \<in> set post. unrestoredRun (u, d) I r) \<longrightarrow>
             faultSegment u d \<in> set (isolatedSegments
                (systemState (engineRuns (pre @ rs @ post) c1))) \<and>
             queueOf (engineRuns (pre @ rs @ post) c1) u
               = queueOf c u @ [disableCommand (fst r0) u d]"
  proof (intro allI impI, elim conjE)
    fix pre rs post
    assume tu: "timerUnset (recoveryStartTime (systemState c1))"
      and pr: "\<forall>r \<in> set pre. unrestoredRun (u, d) I r"
      and ne: "rs \<noteq> []" and rr: "\<forall>r \<in> set rs. restoredRun (u, d) I r"
      and nz: "nowMs (fst (hd rs)) \<noteq> 0"
      and short: "\<forall>r \<in> set rs. nowMs (fst r) - nowMs (fst (hd rs)) \<le> 2999"
      and po: "\<forall>r \<in> set post. unrestoredRun (u, d) I r"
    from after_pre [OF tu pr]
    have h2: "held (u, d) I q (engineRuns pre c1)"
      and tu2: "timerUnset (recoveryStartTime (systemState (engineRuns pre c1)))"
      by simp_all
    have "timing (u, d) I (nowMs (fst (hd rs))) q (engineRuns rs (engineRuns pre c1))"
      by (rule hold_short [OF assms(1) h2 tu2 ne rr nz short])
    then have h3: "held (u, d) I q (engineRuns rs (engineRuns pre c1))"
      by (simp add: timing_def)
    have s: "systemState (engineRuns post (engineRuns rs (engineRuns pre c1)))
               = systemState (engineRuns rs (engineRuns pre c1))"
      "pendingCommands (engineRuns post (engineRuns rs (engineRuns pre c1)))
               = pendingCommands (engineRuns rs (engineRuns pre c1))"
      using unrestored_runs [OF assms(1) h3 po] by simp_all
    have "held (u, d) I q (engineRuns post (engineRuns rs (engineRuns pre c1)))"
      using h3 by (simp add: held_cong [OF s])
    then show "faultSegment u d \<in> set (isolatedSegments
                (systemState (engineRuns (pre @ rs @ post) c1))) \<and>
             queueOf (engineRuns (pre @ rs @ post) c1) u
               = queueOf c u @ [disableCommand (fst r0) u d]"
      by (simp add: held_def q_def)
  qed
  show ?thesis
    unfolding c1_def [symmetric]
    by (intro conjI a1 a2 a3 [unfolded q_def] a4 b [unfolded I_def] c [unfolded I_def])
qed

theorem C1_isolation_round_trip_witness:
  "''Pole2-Pole3'' \<in> set (isolatedSegments (systemState isolated23)) \<and>
   status (systemState isolated23) = FAULT \<and>
   map action (queueOf isolated23 ''Pole2'') = [JStr ''DISABLE_OUTGOING_RELAY''] \<and>
   faultLocation (systemState isolated23) = Some ''Pole2-Pole3'' \<and>
   ''Pole2-Pole3'' \<notin> set (isolatedSegments (systemState
      (engineRuns ([(envAt 500, cutStore23)] @
                   [(envAt 1000, liveStore), (envAt 2500, liveStore), (envAt 4000, liveStore)])
         isolated23))) \<and>
   map action (queueOf
      (engineRuns ([(envAt 500, cutStore23)] @
                   [(envAt 1000, liveStore), (envAt 2500, liveStore), (envAt 4000, liveStore)])
         isolated23) ''Pole2'')
      = [JStr ''DISABLE_OUTGOING_RELAY'', JStr ''ENABLE_OUTGOING_RELAY''] \<and>
   ''Pole2-Pole3'' \<in> set (isolatedSegments (systemState
      (engineRuns ([(envAt 500, cutStore23)] @ [(envAt 1000, liveStore), (envAt 3999, liveStore)] @
                   [(envAt 4500, cutStore23)])
         isolated23)))"
proof -
  have h2: "faultSegment ''Pole2'' ''Pole3'' \<notin> set (isolatedSegments (systemState (newSystem RealCtx)))"
    and h3: "\<not> gridLow (snd (envAt 100, cutStore23))"
    and h4: "\<not> (gridHigh (snd (envAt 100, cutStore23)) \<and>
                status (systemState (newSystem RealCtx)) = GRID_DOWN)"
    and h5: "mismatch (snd (envAt 100, cutStore23)) ''Pole2'' ''Pole3''"
    and q0: "queueOf (newSystem RealCtx) ''Pole2'' = []"
    by (simp_all add: newSystem_def baseline_def queueOf_def emptyQueues_def cutStore23_pairs)
  note t = C1_isolation_round_trip [OF pair23 h2 h3 h4 h5, folded isolated23_def]
  have sg: "faultSegment ''Pole2'' ''Pole3'' = ''Pole2-Pole3''" by (simp add: faultSegment_def)
  have lq: "\<forall>q \<in> set (laterPairs (''Pole2'', ''Pole3'')).
              \<not> newFault (newSystem RealCtx) (snd (envAt 100, cutStore23)) q"
    using example_runs(3) by simp
  from t lq have a: "''Pole2-Pole3'' \<in> set (isolatedSegments (systemState isolated23))"
    "status (systemState isolated23) = FAULT"
    "map action (queueOf isolated23 ''Pole2'') = [JStr ''DISABLE_OUTGOING_RELAY'']"
    "faultLocation (systemState isolated23) = Some ''Pole2-Pole3''"
    by (simp_all add: sg q0 disableCommand_def)
  let ?I = "set (isolatedSegments (systemState isolated23))"
  let ?pre = "[(envAt 500, cutStore23)]"
  let ?long = "[(envAt 1000, liveStore), (envAt 2500, liveStore), (envAt 4000, liveStore)]"
  let ?short = "[(envAt 1000, liveStore), (envAt 3999, liveStore)]"
  let ?post = "[(envAt 4500, cutStore23)]"
  have l: "timerUnset (recoveryStartTime (systemState isolated23)) \<and>
           (\<forall>r \<in> set ?pre. unrestoredRun (''Pole2'', ''Pole3'') ?I r) \<and>
           ?long \<noteq> [] \<and> (\<forall>r \<in> set ?long. restoredRun (''Pole2'', ''Pole3'') ?I r) \<and>
           nowMs (fst (hd ?long)) \<noteq> 0 \<and>
           RECOVERY_STABLE_MS \<le> nowMs (fst (last ?long)) - nowMs (fst (hd ?long))"
    by (simp add: example_runs isolated23_state timerUnset_def RECOVERY_STABLE_MS_def)
  have s: "timerUnset (recoveryStartTime (systemState isolated23)) \<and>
           (\<forall>r \<in> set ?pre. unrestoredRun (''Pole2'', ''Pole3'') ?I r) \<and>
           ?short \<noteq> [] \<and> (\<forall>r \<in> set ?short. restoredRun (''Pole2'', ''Pole3'') ?I r) \<and>
           nowMs (fst (hd ?short)) \<noteq> 0 \<and>
           (\<forall>r \<in> set ?short. nowMs (fst r) - nowMs (fst (hd ?short)) \<le> 2999) \<and>
           (\<forall>r \<in> set ?post. unrestoredRun (''Pole2'', ''Pole3'') ?I r)"
    by (simp add: example_runs isolated23_state timerUnset_def)
  from t l have b: "faultSegment ''Pole2'' ''Pole3'' \<notin> set (isolatedSegments (systemState
      (engineRuns (?pre @ ?long) isolated23))) \<and>
      (\<exists>e. queueOf (engineRuns (?pre @ ?long) isolated23) ''Pole2''
         = queueOf (newSystem RealCtx) ''Pole2'' @
             [disableCommand (fst (envAt 100, cutStore23)) ''Pole2'' ''Pole3'',
              enableCommand e ''Pole2'' ''Pole3''])"
    by blast
  from t s have c: "faultSegment ''Pole2'' ''Pole3'' \<in> set (isolatedSegments (systemState
      (engineRuns (?pre @ ?short @ ?post) isolated23)))"
    by blast
  from b have b1: "''Pole2-Pole3'' \<notin> set (isolatedSegments (systemState
      (engineRuns (?pre @ ?long) isolated23)))"
    and b2: "map action (queueOf (engineRuns (?pre @ ?long) isolated23) ''Pole2'')
      = [JStr ''DISABLE_OUTGOING_RELAY'', JStr ''ENABLE_OUTGOING_RELAY'']"
    by (auto simp: sg q0 disableCommand_def enableCommand_def)
  from a b1 b2 c show ?thesis unfolding sg by (intro conjI)
qed

text \<open>
  The grid checks come first: with the first node reporting LOW, the pair Pole1-Pole2
  shows upstream outgoing HIGH against downstream incoming LOW and is not isolated, and
  the run neither isolates it, nor sets FAULT, nor queues a command.
\<close>

theorem C1_mismatch_behind_dead_grid:
  "mismatch (poleStates gridDownCtx) ''Pole1'' ''Pole2'' \<and>
   ''Pole1-Pole2'' \<notin> set (isolatedSegments (systemState gridDownCtx)) \<and>
   ''Pole1-Pole2'' \<notin> set (isolatedSegments (systemState
      (fst (runFaultEngine (queueCommand (envAt 5)) (envAt 5) gridDownCtx)))) \<and>
   status (systemState (fst (runFaultEngine (queueCommand (envAt 5)) (envAt 5) gridDownCtx)))
     \<noteq> FAULT \<and>
   queueOf (fst (runFaultEngine (queueCommand (envAt 5)) (envAt 5) gridDownCtx)) ''Pole1'' = []"
proof -
  have g: "gridLow (poleStates gridDownCtx)" "status (systemState gridDownCtx) \<noteq> GRID_DOWN"
    "isolatedSegments (systemState gridDownCtx) = []" "queueOf gridDownCtx ''Pole1'' = []"
    by (simp_all add: gridDownCtx_def gridLow_def snapshot_def getProp_def newSystem_def
          baseline_def queueOf_def emptyQueues_def)
  have m: "mismatch (poleStates gridDownCtx) ''Pole1'' ''Pole2''"
    by (simp add: gridDownCtx_def mismatch_def snapshot_def getProp_def faultCondition_def)
  show ?thesis
    using g m by (simp add: runFaultEngine_sweep queueOf_def)
qed

section \<open>The recovery timer is not restarted\<close>

text \<open>
  C4. A release should need the recovery condition to have held for 3000 ms without a
  break. The engine starts the timer at clock value 1000, sees the cut again at 2000
  (the timer stays at 1000), and at 4000, on the first run that sees power on both sides
  again, releases the segment and queues ENABLE_OUTGOING_RELAY.
\<close>

theorem C4_timer_not_restarted:
  "\<not> restored cutStore23 ''Pole2'' ''Pole3'' \<and>
   isolatedSegments (systemState
      (engineRuns [(envAt 1000, liveStore), (envAt 2000, cutStore23)] isolated23))
     = [''Pole2-Pole3''] \<and>
   recoveryStartTime (systemState
      (engineRuns [(envAt 1000, liveStore), (envAt 2000, cutStore23)] isolated23))
     = Some 1000 \<and>
   isolatedSegments (systemState
      (engineRuns [(envAt 1000, liveStore), (envAt 2000, cutStore23), (envAt 4000, liveStore)]
         isolated23)) = [] \<and>
   map action (queueOf
      (engineRuns [(envAt 1000, liveStore), (envAt 2000, cutStore23), (envAt 4000, liveStore)]
         isolated23) ''Pole2'')
     = [JStr ''DISABLE_OUTGOING_RELAY'', JStr ''ENABLE_OUTGOING_RELAY'']"
proof -
  define c1 where "c1 = engineRun (envAt 1000, liveStore) isolated23"
  define c2 where "c2 = engineRun (envAt 2000, cutStore23) c1"
  define c3 where "c3 = engineRun (envAt 4000, liveStore) c2"
  note ev = sweep_def checkSegment_eq faultSegment_def not_both timerStart_def timerUnset_def
    RECOVERY_STABLE_MS_def recoveryRule_not_due recoveryRule_due queueOf_recoveryRule_due Let_def
  note s0 = isolated23_state
  have s1: "isolatedSegments (systemState c1) = [''Pole2-Pole3''] \<and>
            status (systemState c1) = FAULT \<and> recoveryStartTime (systemState c1) = Some 1000 \<and>
            queueOf c1 ''Pole2'' = [disableCommand (envAt 100) ''Pole2'' ''Pole3'']"
    unfolding c1_def
    by (simp add: engineRun_loop liveStore_pairs s0 ev)
  have s2: "isolatedSegments (systemState c2) = [''Pole2-Pole3''] \<and>
            status (systemState c2) = FAULT \<and> recoveryStartTime (systemState c2) = Some 1000 \<and>
            queueOf c2 ''Pole2'' = [disableCommand (envAt 100) ''Pole2'' ''Pole3'']"
    unfolding c2_def
    by (simp add: engineRun_loop cutStore23_pairs s1 ev)
  have s3: "isolatedSegments (systemState c3) = [] \<and>
            queueOf c3 ''Pole2'' = [disableCommand (envAt 100) ''Pole2'' ''Pole3'',
                                    enableCommand (envAt 4000) ''Pole2'' ''Pole3'']"
    unfolding c3_def
    by (simp add: engineRun_loop liveStore_pairs s2 ev)
  have e2: "engineRuns [(envAt 1000, liveStore), (envAt 2000, cutStore23)] isolated23 = c2"
    and e3: "engineRuns [(envAt 1000, liveStore), (envAt 2000, cutStore23),
                         (envAt 4000, liveStore)] isolated23 = c3"
    by (simp_all add: c1_def c2_def c3_def)
  show ?thesis
    unfolding e2 e3
    using s2 s3 cutStore23_pairs(3)
    by (simp add: disableCommand_def enableCommand_def)
qed

section \<open>The publish path runs the engine\<close>

text \<open>The engine does not read or write the last-seen table.\<close>

lemma faultRule_lastUpdateTime:
  "faultRule (queueCommand env) env u d (c\<lparr>lastUpdateTime := L\<rparr>, b) =
     ((fst (faultRule (queueCommand env) env u d (c, b)))\<lparr>lastUpdateTime := L\<rparr>,
      snd (faultRule (queueCommand env) env u d (c, b)))"
  by (simp add: faultRule_def queueCommand_def emit_def Let_def)

lemma recoveryRule_lastUpdateTime:
  "recoveryRule (queueCommand env) env u d (c\<lparr>lastUpdateTime := L\<rparr>, b) =
     ((fst (recoveryRule (queueCommand env) env u d (c, b)))\<lparr>lastUpdateTime := L\<rparr>,
      snd (recoveryRule (queueCommand env) env u d (c, b)))"
  by (simp add: recoveryRule_def queueCommand_def emit_def Let_def)

lemma checkSegment_lastUpdateTime:
  "checkSegment (queueCommand env) env u d (c\<lparr>lastUpdateTime := L\<rparr>, b) =
     ((fst (checkSegment (queueCommand env) env u d (c, b)))\<lparr>lastUpdateTime := L\<rparr>,
      snd (checkSegment (queueCommand env) env u d (c, b)))"
  by (simp add: checkSegment_eq faultRule_lastUpdateTime recoveryRule_lastUpdateTime)

lemma runFaultEngine_lastUpdateTime:
  "runFaultEngine (queueCommand env) env (c\<lparr>lastUpdateTime := L\<rparr>) =
     ((fst (runFaultEngine (queueCommand env) env c))\<lparr>lastUpdateTime := L\<rparr>,
      snd (runFaultEngine (queueCommand env) env c))"
proof -
  have s: "sweep env (c\<lparr>lastUpdateTime := L\<rparr>, False) =
             ((fst (sweep env (c, False)))\<lparr>lastUpdateTime := L\<rparr>, snd (sweep env (c, False)))"
    unfolding sweep_def by (simp only: checkSegment_lastUpdateTime prod.collapse)
  show ?thesis
    by (simp add: runFaultEngine_sweep s emit_def)
qed

text \<open>What \<open>updatePole\<close> does to the system state and the queues is one run of the engine
  on the store with the new snapshot in it.\<close>

lemma updatePole_engineRun:
  "systemState (updatePole env p data c) = systemState (engineRun (env, (poleStates c)(p \<mapsto> data)) c) \<and>
   pendingCommands (updatePole env p data c)
     = pendingCommands (engineRun (env, (poleStates c)(p \<mapsto> data)) c)"
proof -
  have "c\<lparr>poleStates := (poleStates c)(p \<mapsto> data), lastUpdateTime := (lastUpdateTime c)(p \<mapsto> nowMs env)\<rparr>
          = (c\<lparr>poleStates := (poleStates c)(p \<mapsto> data)\<rparr>)\<lparr>lastUpdateTime := (lastUpdateTime c)(p \<mapsto> nowMs env)\<rparr>"
    by simp
  then show ?thesis
    by (simp only: updatePole_def engineRun_def Let_def runFaultEngine_lastUpdateTime fst_conv snd_conv)
       (simp add: emit_def)
qed

section \<open>One location field and one timer for all segments\<close>

text \<open>The fault location is one field: with two new faults in one run it names the one
  further down the chain.\<close>

lemma two_cuts_one_location:
  "isolatedSegments (systemState twoCuts) = [''Pole1-Pole2'', ''Pole2-Pole3''] \<and>
   faultLocation (systemState twoCuts) = Some ''Pole2-Pole3'' \<and>
   status (systemState twoCuts) = FAULT \<and>
   recoveryStartTime (systemState twoCuts) = None"
proof -
  have s: "status (systemState (newSystem RealCtx)) \<noteq> GRID_DOWN"
    "isolatedSegments (systemState (newSystem RealCtx)) = []"
    by (simp_all add: newSystem_def baseline_def)
  show ?thesis
    unfolding twoCuts_def
    by (simp add: engineRun_loop twoCutsStore_pairs s sweep_def checkSegment_eq faultRule_fields
          faultSegment_def not_both)
qed

text \<open>The recovery timer is one field as well. Pole1-Pole2 is released at clock value 4000
  and clears the timer, so Pole2-Pole3, which has seen power on both sides since 2500,
  starts timing at 4000 and is still isolated at 5500.\<close>

lemma shared_timer_delays_release:
  "restored liveStore ''Pole2'' ''Pole3'' \<and>
   isolatedSegments (systemState
      (engineRuns [(envAt 1000, oneCutStore), (envAt 2500, liveStore), (envAt 4000, liveStore),
                   (envAt 5500, liveStore)] twoCuts)) = [''Pole2-Pole3''] \<and>
   recoveryStartTime (systemState
      (engineRuns [(envAt 1000, oneCutStore), (envAt 2500, liveStore), (envAt 4000, liveStore),
                   (envAt 5500, liveStore)] twoCuts)) = Some 4000"
proof -
  define c1 where "c1 = engineRun (envAt 1000, oneCutStore) twoCuts"
  define c2 where "c2 = engineRun (envAt 2500, liveStore) c1"
  define c3 where "c3 = engineRun (envAt 4000, liveStore) c2"
  define c4 where "c4 = engineRun (envAt 5500, liveStore) c3"
  note ev = sweep_def checkSegment_eq faultSegment_def not_both timerStart_def timerUnset_def
    RECOVERY_STABLE_MS_def recoveryRule_not_due recoveryRule_due Let_def
  have s0: "isolatedSegments (systemState twoCuts) = [''Pole1-Pole2'', ''Pole2-Pole3'']"
    "status (systemState twoCuts) = FAULT" "recoveryStartTime (systemState twoCuts) = None"
    using two_cuts_one_location by simp_all
  have s1: "isolatedSegments (systemState c1) = [''Pole1-Pole2'', ''Pole2-Pole3'']
            \<and> status (systemState c1) = FAULT \<and> recoveryStartTime (systemState c1) = Some 1000"
    unfolding c1_def
    by (simp add: engineRun_loop oneCutStore_pairs s0 ev)
  have s2: "isolatedSegments (systemState c2) = [''Pole1-Pole2'', ''Pole2-Pole3'']
            \<and> status (systemState c2) = FAULT \<and> recoveryStartTime (systemState c2) = Some 1000"
    unfolding c2_def
    by (simp add: engineRun_loop liveStore_pairs s1 ev)
  have s3: "isolatedSegments (systemState c3) = [''Pole2-Pole3'']
            \<and> status (systemState c3) = FAULT \<and> recoveryStartTime (systemState c3) = Some 4000"
    unfolding c3_def
    by (simp add: engineRun_loop liveStore_pairs s2 ev)
  have s4: "isolatedSegments (systemState c4) = [''Pole2-Pole3'']
            \<and> status (systemState c4) = FAULT \<and> recoveryStartTime (systemState c4) = Some 4000"
    unfolding c4_def
    by (simp add: engineRun_loop liveStore_pairs s3 ev)
  have "engineRuns [(envAt 1000, oneCutStore), (envAt 2500, liveStore), (envAt 4000, liveStore),
                   (envAt 5500, liveStore)] twoCuts = c4"
    by (simp add: c1_def c2_def c3_def c4_def)
  then show ?thesis using s4 liveStore_pairs(2) by simp
qed

text \<open>And a timer that another segment has started releases a segment early. Both segments
  are isolated; at 1000 only Pole2-Pole3 sees power on both sides and starts the timer;
  Pole1-Pole2 sees power on both sides from 3000 on and is released at 4000, after
  1000 ms.\<close>

lemma shared_timer_early_release:
  "\<not> restored backCutStore ''Pole1'' ''Pole2'' \<and>
   restored liveStore ''Pole1'' ''Pole2'' \<and>
   ''Pole1-Pole2'' \<in> set (isolatedSegments (systemState
      (engineRuns [(envAt 1000, backCutStore), (envAt 3000, liveStore)] twoCuts))) \<and>
   ''Pole1-Pole2'' \<notin> set (isolatedSegments (systemState
      (engineRuns [(envAt 1000, backCutStore), (envAt 3000, liveStore), (envAt 4000, liveStore)]
         twoCuts)))"
proof -
  define c1 where "c1 = engineRun (envAt 1000, backCutStore) twoCuts"
  define c2 where "c2 = engineRun (envAt 3000, liveStore) c1"
  define c3 where "c3 = engineRun (envAt 4000, liveStore) c2"
  note ev = sweep_def checkSegment_eq faultSegment_def not_both timerStart_def timerUnset_def
    RECOVERY_STABLE_MS_def recoveryRule_not_due recoveryRule_due Let_def
  have s0: "isolatedSegments (systemState twoCuts) = [''Pole1-Pole2'', ''Pole2-Pole3'']"
    "status (systemState twoCuts) = FAULT" "recoveryStartTime (systemState twoCuts) = None"
    using two_cuts_one_location by simp_all
  have s1: "isolatedSegments (systemState c1) = [''Pole1-Pole2'', ''Pole2-Pole3'']
            \<and> status (systemState c1) = FAULT \<and> recoveryStartTime (systemState c1) = Some 1000"
    unfolding c1_def
    by (simp add: engineRun_loop backCutStore_pairs s0 ev)
  have s2: "isolatedSegments (systemState c2) = [''Pole1-Pole2'', ''Pole2-Pole3'']
            \<and> status (systemState c2) = FAULT \<and> recoveryStartTime (systemState c2) = Some 1000"
    unfolding c2_def
    by (simp add: engineRun_loop liveStore_pairs s1 ev)
  have s3: "isolatedSegments (systemState c3) = [''Pole2-Pole3'']"
    unfolding c3_def
    by (simp add: engineRun_loop liveStore_pairs s2 ev)
  have e: "engineRuns [(envAt 1000, backCutStore), (envAt 3000, liveStore)] twoCuts = c2"
    "engineRuns [(envAt 1000, backCutStore), (envAt 3000, liveStore), (envAt 4000, liveStore)]
       twoCuts = c3"
    by (simp_all add: c1_def c2_def c3_def)
  show ?thesis
    unfolding e using s2 s3 backCutStore_pairs(3) liveStore_pairs(5) by simp
qed

end
